theory Spec2Isabelle
  imports Main "HOL-Library.While_Combinator" "HOL-Library.Char_ord" "HOL-Library.List_Lexorder"
begin

section \<open>Paths and the file system\<close>

text \<open>
  The script \<^verbatim>\<open>analyze_holopatcher_deps.py\<close> works on \<^verbatim>\<open>pathlib.Path\<close> values and on the
  file system below the working directory. A path is the list of its components
  (\<^verbatim>\<open>Path("vendor/holopatcher_py")\<close> is \<open>[''vendor'', ''holopatcher_py'']\<close>, the working
  directory is \<open>[]\<close>); two paths are equal iff their components are. The file system is
  an association list from paths to nodes. A regular file carries its size in bytes and
  what reading and parsing it gives; a directory carries the size \<^verbatim>\<open>stat\<close> reports for
  it. Symbolic links and permissions are not modelled.
\<close>

type_synonym path = "string list"

text \<open>
  The nodes of \<^verbatim>\<open>ast.walk(tree)\<close> that the script looks at: \<^verbatim>\<open>ast.Import\<close> with the dotted
  names of its aliases, \<^verbatim>\<open>ast.ImportFrom\<close> with its \<^verbatim>\<open>module\<close> (\<^verbatim>\<open>None\<close> for
  \<^verbatim>\<open>from . import x\<close>). All other nodes are dropped.
\<close>

datatype import_stmt = Import "string list" | ImportFrom "string option"

text \<open>
  What \<^verbatim>\<open>open\<close>, \<^verbatim>\<open>read\<close> and \<^verbatim>\<open>ast.parse\<close> give for a regular file: \<open>Unreadable\<close> when one of
  them raises (undecodable bytes, a syntax error), otherwise the import nodes of the tree.
\<close>

datatype source = Unreadable | Module "import_stmt list"

datatype node = File (st_size: nat) (src: source) | Dir (st_size: nat)

type_synonym filesystem = "(path \<times> node) list"

datatype py_error =
  FileNotFoundError | IsADirectoryError | NotADirectoryError | DirectoryNotEmpty
  | ZeroDivisionError | ValueError

definition path_exists :: "filesystem \<Rightarrow> path \<Rightarrow> bool" where
  "path_exists fs p = (map_of fs p \<noteq> None)"

definition is_file :: "filesystem \<Rightarrow> path \<Rightarrow> bool" where
  "is_file fs p = (case map_of fs p of Some (File n s) \<Rightarrow> True | _ \<Rightarrow> False)"

definition is_dir :: "filesystem \<Rightarrow> path \<Rightarrow> bool" where
  "is_dir fs p = (case map_of fs p of Some (Dir n) \<Rightarrow> True | _ \<Rightarrow> False)"

text \<open>\<^verbatim>\<open>Path.parent\<close>: the path without its last component; the parent of \<^verbatim>\<open>.\<close> is \<^verbatim>\<open>.\<close>.\<close>

definition parent :: "path \<Rightarrow> path" where
  "parent p = butlast p"

text \<open>\<open>under d q\<close>: \<open>q\<close> lies strictly below \<open>d\<close>.\<close>

definition under :: "path \<Rightarrow> path \<Rightarrow> bool" where
  "under d q = (length d < length q \<and> take (length d) q = d)"

text \<open>
  \<^verbatim>\<open>str.rfind\<close> for one character: the index of its last occurrence, or \<open>-1\<close>.
\<close>

definition rfind :: "char \<Rightarrow> string \<Rightarrow> int" where
  "rfind c s =
     (if c \<in> set s then int (length s) - 1 - int (length (takeWhile (\<lambda>x. x \<noteq> c) (rev s)))
      else - 1)"

text \<open>
  \<^verbatim>\<open>Path.suffix\<close>: with \<^verbatim>\<open>i = name.rfind('.')\<close>, the suffix is \<^verbatim>\<open>name[i:]\<close> when
  \<^verbatim>\<open>0 < i < len(name) - 1\<close> and the empty string otherwise. So a name that begins with its
  only dot (\<^verbatim>\<open>.py\<close>) has no suffix.
\<close>

definition suffix :: "path \<Rightarrow> string" where
  "suffix p =
     (if p = [] then []
      else let name = last p; i = rfind (CHR ''.'') name
           in if 0 < i \<and> i < int (length name) - 1 then drop (nat i) name else [])"

text \<open>
  Matching one path component against a glob pattern, for the patterns the script uses:
  \<^verbatim>\<open>*\<close> matches any run of characters (also an initial dot, as \<^verbatim>\<open>pathlib\<close> does), every
  other character matches itself.
\<close>

fun fnmatch :: "string \<Rightarrow> string \<Rightarrow> bool" where
  "fnmatch [] s = (s = [])"
| "fnmatch (p # ps) [] = (p = CHR ''*'' \<and> fnmatch ps [])"
| "fnmatch (p # ps) (c # cs) =
     (if p = CHR ''*'' then fnmatch ps (c # cs) \<or> fnmatch (p # ps) cs
      else p = c \<and> fnmatch ps cs)"

text \<open>
  \<^verbatim>\<open>d.rglob(pattern)\<close>: every path strictly below \<open>d\<close> whose last component matches; nothing
  when \<open>d\<close> is not a directory.
\<close>

definition rglob :: "filesystem \<Rightarrow> path \<Rightarrow> string \<Rightarrow> path list" where
  "rglob fs d pat =
     (if is_dir fs d then [q \<leftarrow> map fst fs. under d q \<and> fnmatch pat (last q)] else [])"

text \<open>\<^verbatim>\<open>d.iterdir()\<close>: the children of a directory; raises when \<open>d\<close> is not one.\<close>

definition iterdir :: "filesystem \<Rightarrow> path \<Rightarrow> py_error + path list" where
  "iterdir fs d =
     (case map_of fs d of
        None \<Rightarrow> Inl FileNotFoundError
      | Some (File n s) \<Rightarrow> Inl NotADirectoryError
      | Some (Dir n) \<Rightarrow> Inr [q \<leftarrow> map fst fs. q \<noteq> [] \<and> butlast q = d])"

definition remove_key :: "path \<Rightarrow> filesystem \<Rightarrow> filesystem" where
  "remove_key p fs = [e \<leftarrow> fs. fst e \<noteq> p]"

text \<open>\<^verbatim>\<open>p.unlink()\<close>: removes a regular file; raises for a missing path and for a directory.\<close>

definition unlink :: "filesystem \<Rightarrow> path \<Rightarrow> py_error + filesystem" where
  "unlink fs p =
     (case map_of fs p of
        None \<Rightarrow> Inl FileNotFoundError
      | Some (Dir n) \<Rightarrow> Inl IsADirectoryError
      | Some (File n s) \<Rightarrow> Inr (remove_key p fs))"

text \<open>\<^verbatim>\<open>d.rmdir()\<close>: removes an empty directory; raises otherwise.\<close>

definition rmdir :: "filesystem \<Rightarrow> path \<Rightarrow> py_error + filesystem" where
  "rmdir fs d =
     (case iterdir fs d of
        Inl e \<Rightarrow> Inl e
      | Inr kids \<Rightarrow> if kids = [] then Inr (remove_key d fs) else Inl DirectoryNotEmpty)"

text \<open>\<^verbatim>\<open>shutil.rmtree(d)\<close>: removes a directory and everything below it; raises for a
  missing path and for a regular file.\<close>

definition rmtree :: "filesystem \<Rightarrow> path \<Rightarrow> py_error + filesystem" where
  "rmtree fs d =
     (case map_of fs d of
        None \<Rightarrow> Inl FileNotFoundError
      | Some (File n s) \<Rightarrow> Inl NotADirectoryError
      | Some (Dir n) \<Rightarrow> Inr [e \<leftarrow> fs. \<not> (fst e = d \<or> under d (fst e))])"

text \<open>
  A file system as the operating system keeps it: every path is listed once, and the
  parent of every path other than the working directory is a directory.
\<close>

definition wf_fs :: "filesystem \<Rightarrow> bool" where
  "wf_fs fs = (distinct (map fst fs) \<and> (\<forall>q \<in> set (map fst fs). q \<noteq> [] \<longrightarrow> is_dir fs (parent q)))"

section \<open>The reference extractor\<close>

text \<open>
  What the script prints, one constructor for each \<^verbatim>\<open>print\<close> call (number formatting is
  left out; the arguments are the numbers and paths the message is built from).
\<close>

datatype message =
    Warning path
  | Error_vendor_missing
  | Error_entry_missing
  | Banner string
  | Found_required nat
  | Total_python nat
  | Removable_count nat
  | Size_total nat
  | Size_removable nat nat
  | Size_after nat
  | Removing_dir path nat
  | Removed_count nat
  | Removed_item path
  | Final_size nat nat

text \<open>\<^verbatim>\<open>name.split(".")[0]\<close>: the text before the first dot.\<close>

definition first_segment :: "string \<Rightarrow> string" where
  "first_segment s = takeWhile (\<lambda>c. c \<noteq> CHR ''.'') s"

fun stmt_imports :: "import_stmt \<Rightarrow> string list" where
  "stmt_imports (Import names) = map first_segment names"
| "stmt_imports (ImportFrom None) = []"
| "stmt_imports (ImportFrom (Some m)) = (if m = [] then [] else [first_segment m])"

text \<open>
  The \<^verbatim>\<open>try\<close> block of \<^verbatim>\<open>find_imports_in_file\<close>: \<open>None\<close> when \<^verbatim>\<open>open\<close>, \<^verbatim>\<open>read\<close> or
  \<^verbatim>\<open>ast.parse\<close> raises (a missing path, a directory, an unreadable or malformed file).
\<close>

definition read_source :: "filesystem \<Rightarrow> path \<Rightarrow> import_stmt list option" where
  "read_source fs p =
     (case map_of fs p of
        Some (File n (Module stmts)) \<Rightarrow> Some stmts
      | _ \<Rightarrow> None)"

text \<open>
  \<^verbatim>\<open>find_imports_in_file\<close> returns the set of imported top-level names (a list without
  repetitions) and what it printed: the warning of the \<^verbatim>\<open>except\<close> branch, where the set is
  still empty.
\<close>

definition find_imports_in_file :: "filesystem \<Rightarrow> path \<Rightarrow> string list \<times> message list" where
  "find_imports_in_file fs file_path =
     (case read_source fs file_path of
        None \<Rightarrow> ([], [Warning file_path])
      | Some stmts \<Rightarrow> (remdups (concat (map stmt_imports stmts)), []))"

section \<open>The closure builder\<close>

text \<open>
  The three sets of \<^verbatim>\<open>find_all_dependencies\<close> are lists read through \<open>set\<close>: \<^verbatim>\<open>add\<close> puts
  the element in front, so a list also records how often and in which order elements were
  added. \<^verbatim>\<open>to_process.pop()\<close> removes an arbitrary element: the oracle \<open>ch\<close> chooses its
  position, and the element leaves the work set altogether.
\<close>

record dep_state =
  visited :: "path list"
  to_process :: "path list"
  all_files :: "path list"
  printed :: "message list"

definition root_set :: "string list" where
  "root_set = [''pykotor'', ''utility'', ''holopatcher'', ''loggerplus'']"

definition pick :: "(path list \<Rightarrow> nat) \<Rightarrow> path list \<Rightarrow> path" where
  "pick ch tp = tp ! (ch tp mod length tp)"

text \<open>The innermost loop: \<^verbatim>\<open>for py_file in ...: if py_file not in visited: to_process.add(py_file)\<close>.\<close>

definition add_new :: "path list \<Rightarrow> path list \<Rightarrow> path list \<Rightarrow> path list" where
  "add_new vis files tp = fold (\<lambda>py_file acc. if py_file \<notin> set vis then py_file # acc else acc) files tp"

text \<open>The body of \<^verbatim>\<open>for imp in imports\<close>.\<close>

definition map_import :: "filesystem \<Rightarrow> path \<Rightarrow> path list \<Rightarrow> string \<Rightarrow> path list \<Rightarrow> path list" where
  "map_import fs root_dir vis imp tp =
     (if imp \<in> set root_set then
        (let module_dir = root_dir @ [imp]
         in if path_exists fs module_dir then add_new vis (rglob fs module_dir ''*.py'') tp else tp)
      else tp)"

text \<open>One iteration of \<^verbatim>\<open>while to_process\<close>.\<close>

definition dep_step :: "(path list \<Rightarrow> nat) \<Rightarrow> filesystem \<Rightarrow> path \<Rightarrow> dep_state \<Rightarrow> dep_state" where
  "dep_step ch fs root_dir s =
     (let current = pick ch (to_process s);
          tp = removeAll current (to_process s)
      in if current \<in> set (visited s) then s\<lparr>to_process := tp\<rparr>
         else
           let vis = current # visited s
           in if path_exists fs current \<and> suffix current = ''.py'' then
                (let (imports, warn) = find_imports_in_file fs current
                 in \<lparr>visited = vis,
                     to_process = fold (map_import fs root_dir vis) imports tp,
                     all_files = current # all_files s,
                     printed = printed s @ warn\<rparr>)
              else s\<lparr>visited := vis, to_process := tp\<rparr>)"

definition dep_init :: "path \<Rightarrow> dep_state" where
  "dep_init start_file = \<lparr>visited = [], to_process = [start_file], all_files = [], printed = []\<rparr>"

definition dep_loop :: "(path list \<Rightarrow> nat) \<Rightarrow> filesystem \<Rightarrow> path \<Rightarrow> path \<Rightarrow> dep_state option" where
  "dep_loop ch fs start_file root_dir =
     while_option (\<lambda>s. to_process s \<noteq> []) (dep_step ch fs root_dir) (dep_init start_file)"

text \<open>
  \<^verbatim>\<open>find_all_dependencies\<close>: the set \<^verbatim>\<open>all_files\<close> and what was printed on the way; \<open>None\<close>
  when the loop does not end.
\<close>

definition find_all_dependencies ::
  "(path list \<Rightarrow> nat) \<Rightarrow> filesystem \<Rightarrow> path \<Rightarrow> path \<Rightarrow> (path list \<times> message list) option" where
  "find_all_dependencies ch fs start_file root_dir =
     map_option (\<lambda>s. (all_files s, printed s)) (dep_loop ch fs start_file root_dir)"

section \<open>The main routine\<close>

definition vendor_dir :: path where
  "vendor_dir = [''vendor'', ''holopatcher_py'']"

definition entry_point :: path where
  "entry_point = vendor_dir @ [''holopatcher'', ''__main__.py'']"

definition unused_dirs :: "path list" where
  "unused_dirs =
     [[''utility'', ''gui'', ''qt''],
      [''utility'', ''ui_libraries''],
      [''pykotor'', ''resource'', ''formats'', ''tpc'', ''convert''],
      [''pykotor'', ''resource'', ''formats'', ''mdl'']]"

definition artifact_patterns :: "string list" where
  "artifact_patterns = [''*.pyi'', ''*.pyc'', ''*.pyo'', ''__pycache__'', ''*.out'', ''tests'']"

text \<open>\<^verbatim>\<open>sum(f.stat().st_size for f in files if f.exists())\<close>: a missing path adds nothing.\<close>

definition size_sum :: "filesystem \<Rightarrow> path list \<Rightarrow> nat" where
  "size_sum fs files =
     sum_list (map (\<lambda>f. case map_of fs f of None \<Rightarrow> 0 | Some n \<Rightarrow> st_size n) files)"

text \<open>\<^verbatim>\<open>sum(f.stat().st_size for f in d.rglob("*") if f.is_file())\<close>.\<close>

definition tree_size :: "filesystem \<Rightarrow> path \<Rightarrow> nat" where
  "tree_size fs d =
     sum_list (map (\<lambda>f. case map_of fs f of Some (File n s) \<Rightarrow> n | _ \<Rightarrow> 0) (rglob fs d ''*''))"

text \<open>
  The size report of lines 92 to 100. The three printed lines divide by constants, and the
  second one by \<^verbatim>\<open>total_size\<close>: true division by zero raises, after the first line is out.
\<close>

definition size_report :: "filesystem \<Rightarrow> path list \<Rightarrow> path list \<Rightarrow> py_error option \<times> message list" where
  "size_report fs all_py_files removable =
     (let removable_size = size_sum fs removable;
          total_size = size_sum fs all_py_files
      in if total_size = 0 then (Some ZeroDivisionError, [Banner ''Size analysis:'', Size_total total_size])
         else (None, [Banner ''Size analysis:'', Size_total total_size,
                      Size_removable removable_size total_size,
                      Size_after (total_size - removable_size)]))"

text \<open>
  Lines 111 to 116: each listed directory that exists is removed with its content. The
  loop stops with the exception when \<^verbatim>\<open>rmtree\<close> raises.
\<close>

fun remove_unused_dirs ::
  "filesystem \<Rightarrow> message list \<Rightarrow> path list \<Rightarrow> py_error option \<times> filesystem \<times> message list" where
  "remove_unused_dirs fs out [] = (None, fs, out)"
| "remove_unused_dirs fs out (dir_name # rest) =
     (let dir_path = vendor_dir @ dir_name
      in if path_exists fs dir_path then
           (case rmtree fs dir_path of
              Inl e \<Rightarrow> (Some e, fs, out @ [Removing_dir dir_name (tree_size fs dir_path)])
            | Inr fs' \<Rightarrow>
                remove_unused_dirs fs' (out @ [Removing_dir dir_name (tree_size fs dir_path)]) rest)
         else remove_unused_dirs fs out rest)"

text \<open>
  Lines 127 to 136, the walk that removes empty parent directories. An exception inside
  the \<^verbatim>\<open>try\<close> ends the walk and is dropped.
\<close>

function prune_parents :: "filesystem \<Rightarrow> path \<Rightarrow> filesystem" where
  "prune_parents fs par =
     (if par \<noteq> vendor_dir \<and> path_exists fs par then
        (case iterdir fs par of
           Inl e \<Rightarrow> fs
         | Inr kids \<Rightarrow>
             if kids = [] then
               (case rmdir fs par of
                  Inl e \<Rightarrow> fs
                | Inr fs' \<Rightarrow> prune_parents fs' (parent par))
             else fs)
      else fs)"
  by pat_completeness auto
termination
proof (relation "measure (\<lambda>(fs, par). length fs)")
  show "wf (measure (\<lambda>(fs, par). length fs))"
    by simp
next
  fix fs :: filesystem and par kids fs'
  assume ex: "par \<noteq> vendor_dir \<and> path_exists fs par"
    and rm: "rmdir fs par = Inr fs'" and it: "iterdir fs par = Inr kids" and k: "kids = []"
  from rm it k have fs': "fs' = remove_key par fs"
    by (simp add: rmdir_def)
  from ex obtain n where "(par, n) \<in> set fs"
    by (auto simp: path_exists_def dest: map_of_SomeD)
  then have "length (remove_key par fs) < length fs"
    unfolding remove_key_def
    by (intro length_filter_less[where x = "(par, n)"]) auto
  with fs' show "((fs', parent par), (fs, par)) \<in> measure (\<lambda>(fs, par). length fs)"
    by simp
qed

text \<open>
  Lines 120 to 136: for each removable file in sorted order, \<^verbatim>\<open>relative_to\<close>, \<^verbatim>\<open>unlink\<close>,
  count, and the walk over the parents. Neither \<^verbatim>\<open>relative_to\<close> nor \<^verbatim>\<open>unlink\<close> is inside
  a \<^verbatim>\<open>try\<close>: the loop stops with the exception, at the file system reached so far.
\<close>

fun remove_files :: "filesystem \<Rightarrow> nat \<Rightarrow> path list \<Rightarrow> py_error option \<times> filesystem \<times> nat" where
  "remove_files fs removed_count [] = (None, fs, removed_count)"
| "remove_files fs removed_count (file_path # rest) =
     (if \<not> (file_path = vendor_dir \<or> under vendor_dir file_path) then
        (Some ValueError, fs, removed_count)
      else case unlink fs file_path of
             Inl e \<Rightarrow> (Some e, fs, removed_count)
           | Inr fs' \<Rightarrow>
               remove_files (prune_parents fs' (parent file_path)) (removed_count + 1) rest)"

text \<open>
  Lines 142 to 149. \<^verbatim>\<open>rglob\<close> is taken when the loop over a pattern starts; an item that an
  earlier removal took away is neither a file nor a directory any more and is passed over.
\<close>

fun sweep_items ::
  "filesystem \<Rightarrow> message list \<Rightarrow> path list \<Rightarrow> py_error option \<times> filesystem \<times> message list" where
  "sweep_items fs out [] = (None, fs, out)"
| "sweep_items fs out (item # rest) =
     (if is_file fs item then
        (case unlink fs item of
           Inl e \<Rightarrow> (Some e, fs, out)
         | Inr fs' \<Rightarrow> sweep_items fs' (out @ [Removed_item item]) rest)
      else if is_dir fs item then
        (case rmtree fs item of
           Inl e \<Rightarrow> (Some e, fs, out)
         | Inr fs' \<Rightarrow> sweep_items fs' (out @ [Removed_item item]) rest)
      else sweep_items fs out rest)"

fun sweep ::
  "filesystem \<Rightarrow> message list \<Rightarrow> string list \<Rightarrow> py_error option \<times> filesystem \<times> message list" where
  "sweep fs out [] = (None, fs, out)"
| "sweep fs out (pattern # rest) =
     (case sweep_items fs out (rglob fs vendor_dir pattern) of
        (Some e, fs', out') \<Rightarrow> (Some e, fs', out')
      | (None, fs', out') \<Rightarrow> sweep fs' out' rest)"

text \<open>
  How a run of \<^verbatim>\<open>main\<close> ends: it returns a number or an exception leaves it. The record
  keeps the file system and the output at that moment.
\<close>

datatype outcome = Returned int | Raised py_error

record run =
  status :: outcome
  fs_after :: filesystem
  stdout :: "message list"

text \<open>
  Lines 80 to 89: the required files, the inventory and the removable files. The
  inventory is a set built from \<^verbatim>\<open>rglob\<close>, the removable files are the set difference.
\<close>

definition all_py_files :: "filesystem \<Rightarrow> path list" where
  "all_py_files fs = remdups (rglob fs vendor_dir ''*.py'')"

definition removable :: "filesystem \<Rightarrow> path list \<Rightarrow> path list" where
  "removable fs required_files = [f \<leftarrow> all_py_files fs. f \<notin> set required_files]"

text \<open>The part of \<^verbatim>\<open>main\<close> that changes the file system, lines 110 to 158.\<close>

definition cleanup :: "filesystem \<Rightarrow> message list \<Rightarrow> path list \<Rightarrow> nat \<Rightarrow> run" where
  "cleanup fs out rem total_size =
     (case remove_unused_dirs fs (out @ [Banner ''Removing obviously unused directories...'']) unused_dirs of
        (Some e, fs1, out1) \<Rightarrow> \<lparr>status = Raised e, fs_after = fs1, stdout = out1\<rparr>
      | (None, fs1, out1) \<Rightarrow>
          (case remove_files fs1 0 (sort rem) of
             (Some e, fs2, n) \<Rightarrow>
               \<lparr>status = Raised e, fs_after = fs2,
                stdout = out1 @ [Banner ''Removing unused Python files...'']\<rparr>
           | (None, fs2, n) \<Rightarrow>
               (case sweep fs2
                       (out1 @ [Banner ''Removing unused Python files...'', Removed_count n,
                                Banner ''Removing non-Python artifacts...''])
                       artifact_patterns of
                  (Some e, fs3, out3) \<Rightarrow> \<lparr>status = Raised e, fs_after = fs3, stdout = out3\<rparr>
                | (None, fs3, out3) \<Rightarrow>
                    \<lparr>status = Returned 0, fs_after = fs3,
                     stdout = out3 @ [Final_size (tree_size fs3 vendor_dir) total_size]\<rparr>)))"

text \<open>\<^verbatim>\<open>main\<close>; \<open>None\<close> when the closure loop does not end.\<close>

definition main :: "(path list \<Rightarrow> nat) \<Rightarrow> filesystem \<Rightarrow> run option" where
  "main ch fs =
     (if \<not> path_exists fs vendor_dir then
        Some \<lparr>status = Returned 1, fs_after = fs, stdout = [Error_vendor_missing]\<rparr>
      else if \<not> path_exists fs entry_point then
        Some \<lparr>status = Returned 1, fs_after = fs, stdout = [Error_entry_missing]\<rparr>
      else
        (case find_all_dependencies ch fs entry_point vendor_dir of
           None \<Rightarrow> None
         | Some (required_files, warnings) \<Rightarrow>
             (let rem = removable fs required_files;
                  out = [Banner ''Analyzing holopatcher dependencies...'', Banner ''Entry point''] @ warnings
                        @ [Found_required (card (set required_files)),
                           Total_python (length (all_py_files fs)),
                           Removable_count (length rem)]
              in case size_report fs (all_py_files fs) rem of
                   (Some e, lines) \<Rightarrow> Some \<lparr>status = Raised e, fs_after = fs, stdout = out @ lines\<rparr>
                 | (None, lines) \<Rightarrow>
                     Some (cleanup fs (out @ lines) rem (size_sum fs (all_py_files fs))))))"

text \<open>
  \<^verbatim>\<open>sys.exit(main())\<close>: the returned number is the exit status, and an exception that
  leaves \<^verbatim>\<open>main\<close> ends the interpreter with status 1.
\<close>

fun exit_status :: "outcome \<Rightarrow> int" where
  "exit_status (Returned n) = n"
| "exit_status (Raised e) = 1"

section \<open>Reachability\<close>

text \<open>
  Step 3 of the closure builder: a source file is a path that exists and has the suffix
  \<^verbatim>\<open>.py\<close> (line 47 of the script, which does not ask what kind of node the path is).
\<close>

definition source_file :: "filesystem \<Rightarrow> path \<Rightarrow> bool" where
  "source_file fs p = (path_exists fs p \<and> suffix p = ''.py'')"

text \<open>The top-level names a file references.\<close>

definition imports_of :: "filesystem \<Rightarrow> path \<Rightarrow> string set" where
  "imports_of fs f = set (fst (find_imports_in_file fs f))"

text \<open>
  What one processed file puts on the work set: for each of its references in the root
  set whose directory exists, the result of \<^verbatim>\<open>rglob("*.py")\<close> there.
\<close>

definition targets :: "filesystem \<Rightarrow> path \<Rightarrow> path \<Rightarrow> path set" where
  "targets fs root_dir f =
     (\<Union>imp \<in> imports_of fs f.
        if imp \<in> set root_set \<and> path_exists fs (root_dir @ [imp])
        then set (rglob fs (root_dir @ [imp]) ''*.py'') else {})"

text \<open>
  The set of the guarantee of the closure builder, in its words: the source files
  reachable from the entry file by following static imports, where a reference to a name
  of the root set pulls in every source file below the directory of that root module.
  A reference to any other name gives no rule.
\<close>

inductive_set reachable :: "filesystem \<Rightarrow> path \<Rightarrow> path \<Rightarrow> path set"
  for fs :: filesystem and root_dir :: path and start_file :: path where
  entry: "source_file fs start_file \<Longrightarrow> start_file \<in> reachable fs root_dir start_file"
| module: "f \<in> reachable fs root_dir start_file \<Longrightarrow> imp \<in> imports_of fs f \<Longrightarrow>
     imp \<in> set root_set \<Longrightarrow> is_dir fs (root_dir @ [imp]) \<Longrightarrow> under (root_dir @ [imp]) g \<Longrightarrow>
     source_file fs g \<Longrightarrow> g \<in> reachable fs root_dir start_file"

text \<open>The invariant of the loop of \<^verbatim>\<open>find_all_dependencies\<close>.\<close>

definition dep_inv :: "filesystem \<Rightarrow> path \<Rightarrow> path \<Rightarrow> dep_state \<Rightarrow> bool" where
  "dep_inv fs root_dir start s =
     (distinct (visited s) \<and>
      set (to_process s) \<inter> set (visited s) = {} \<and>
      set (to_process s) \<union> set (visited s) \<subseteq> insert start (set (map fst fs)) \<and>
      all_files s = filter (source_file fs) (visited s) \<and>
      start \<in> set (to_process s) \<union> set (visited s) \<and>
      (\<forall>f \<in> set (visited s). source_file fs f \<longrightarrow>
          targets fs root_dir f \<subseteq> set (visited s) \<union> set (to_process s)) \<and>
      (\<forall>g \<in> set (to_process s) \<union> set (visited s).
          g = start \<or> (\<exists>f \<in> reachable fs root_dir start. g \<in> targets fs root_dir f)) \<and>
      printed s = concat (map (\<lambda>f. snd (find_imports_in_file fs f)) (rev (all_files s))))"

section \<open>Example trees\<close>

text \<open>An oracle for \<^verbatim>\<open>pop\<close>: always the element in front.\<close>

definition first_choice :: "path list \<Rightarrow> nat" where
  "first_choice tp = 0"

text \<open>
  The entry file imports the root module \<^verbatim>\<open>utility\<close> and the external module \<^verbatim>\<open>os\<close>;
  \<^verbatim>\<open>utility/__init__.py\<close> imports nothing; \<^verbatim>\<open>utility/helper.py\<close> is imported nowhere.
\<close>

definition helper_py :: path where
  "helper_py = vendor_dir @ [''utility'', ''helper.py'']"

definition init_py :: path where
  "init_py = vendor_dir @ [''utility'', ''__init__.py'']"

definition scenario_fs :: filesystem where
  "scenario_fs =
     [([], Dir 4096),
      ([''vendor''], Dir 4096),
      ([''vendor'', ''holopatcher_py''], Dir 4096),
      ([''vendor'', ''holopatcher_py'', ''holopatcher''], Dir 4096),
      ([''vendor'', ''holopatcher_py'', ''holopatcher'', ''__main__.py''],
         File 120 (Module [Import [''utility''], ImportFrom (Some ''os.path'')])),
      ([''vendor'', ''holopatcher_py'', ''utility''], Dir 4096),
      ([''vendor'', ''holopatcher_py'', ''utility'', ''__init__.py''], File 0 (Module [])),
      ([''vendor'', ''holopatcher_py'', ''utility'', ''helper.py''], File 300 (Module []))]"

text \<open>
  An import cycle: the entry file imports the root module \<^verbatim>\<open>utility\<close>, which holds
  \<^verbatim>\<open>b.py\<close>, and \<^verbatim>\<open>b.py\<close> imports the root module \<^verbatim>\<open>holopatcher\<close>, which holds the entry file.
\<close>

definition cycle_b :: path where
  "cycle_b = vendor_dir @ [''utility'', ''b.py'']"

definition cycle_fs :: filesystem where
  "cycle_fs =
     [([], Dir 4096),
      ([''vendor''], Dir 4096),
      ([''vendor'', ''holopatcher_py''], Dir 4096),
      ([''vendor'', ''holopatcher_py'', ''holopatcher''], Dir 4096),
      ([''vendor'', ''holopatcher_py'', ''holopatcher'', ''__main__.py''],
         File 50 (Module [ImportFrom (Some ''utility.b'')])),
      ([''vendor'', ''holopatcher_py'', ''utility''], Dir 4096),
      ([''vendor'', ''holopatcher_py'', ''utility'', ''b.py''],
         File 60 (Module [Import [''holopatcher.__main__'']]))]"

text \<open>
  \<open>set_source p c fs\<close>: the tree \<open>fs\<close> with the content of the regular file \<open>p\<close>
  replaced by \<open>c\<close>.
\<close>

definition set_source :: "path \<Rightarrow> source \<Rightarrow> filesystem \<Rightarrow> filesystem" where
  "set_source p c fs =
     map (\<lambda>(q, n). if q = p then (case n of File sz old \<Rightarrow> (q, File sz c) | Dir sz \<Rightarrow> (q, n)) else (q, n)) fs"

text \<open>The tree \<open>scenario_fs\<close> with a syntax error in \<^verbatim>\<open>utility/helper.py\<close>.\<close>

definition malformed_fs :: filesystem where
  "malformed_fs = set_source helper_py Unreadable scenario_fs"

text \<open>A tree whose only \<^verbatim>\<open>.py\<close> file is an empty entry point.\<close>

definition empty_entry_fs :: filesystem where
  "empty_entry_fs =
     [([], Dir 4096),
      ([''vendor''], Dir 4096),
      ([''vendor'', ''holopatcher_py''], Dir 4096),
      ([''vendor'', ''holopatcher_py'', ''holopatcher''], Dir 4096),
      ([''vendor'', ''holopatcher_py'', ''holopatcher'', ''__main__.py''], File 0 (Module []))]"

text \<open>
  A tree where the entry point imports no root module, one removable file lies in the
  listed unused directory \<^verbatim>\<open>pykotor/resource/formats/mdl\<close> and another one in
  \<^verbatim>\<open>utility\<close>; \<open>stale_after\<close> is that tree without the directory \<^verbatim>\<open>mdl\<close>.
\<close>

definition stale_py :: path where
  "stale_py = vendor_dir @ [''pykotor'', ''resource'', ''formats'', ''mdl'', ''io_mdl.py'']"

definition old_py :: path where
  "old_py = vendor_dir @ [''utility'', ''old.py'']"

definition stale_fs :: filesystem where
  "stale_fs =
     [([], Dir 4096),
      ([''vendor''], Dir 4096),
      ([''vendor'', ''holopatcher_py''], Dir 4096),
      ([''vendor'', ''holopatcher_py'', ''holopatcher''], Dir 4096),
      ([''vendor'', ''holopatcher_py'', ''holopatcher'', ''__main__.py''],
         File 120 (Module [Import [''sys'']])),
      ([''vendor'', ''holopatcher_py'', ''pykotor''], Dir 4096),
      ([''vendor'', ''holopatcher_py'', ''pykotor'', ''resource''], Dir 4096),
      ([''vendor'', ''holopatcher_py'', ''pykotor'', ''resource'', ''formats''], Dir 4096),
      ([''vendor'', ''holopatcher_py'', ''pykotor'', ''resource'', ''formats'', ''mdl''], Dir 4096),
      ([''vendor'', ''holopatcher_py'', ''pykotor'', ''resource'', ''formats'', ''mdl'', ''io_mdl.py''],
         File 900 (Module [])),
      ([''vendor'', ''holopatcher_py'', ''utility''], Dir 4096),
      ([''vendor'', ''holopatcher_py'', ''utility'', ''old.py''], File 80 (Module []))]"

definition stale_after :: filesystem where
  "stale_after =
     [([], Dir 4096),
      ([''vendor''], Dir 4096),
      ([''vendor'', ''holopatcher_py''], Dir 4096),
      ([''vendor'', ''holopatcher_py'', ''holopatcher''], Dir 4096),
      ([''vendor'', ''holopatcher_py'', ''holopatcher'', ''__main__.py''],
         File 120 (Module [Import [''sys'']])),
      ([''vendor'', ''holopatcher_py'', ''pykotor''], Dir 4096),
      ([''vendor'', ''holopatcher_py'', ''pykotor'', ''resource''], Dir 4096),
      ([''vendor'', ''holopatcher_py'', ''pykotor'', ''resource'', ''formats''], Dir 4096),
      ([''vendor'', ''holopatcher_py'', ''utility''], Dir 4096),
      ([''vendor'', ''holopatcher_py'', ''utility'', ''old.py''], File 80 (Module []))]"

text \<open>
  A tree where the entry point imports \<^verbatim>\<open>utility\<close>, so that \<^verbatim>\<open>utility/keep.py\<close> is
  required and \<^verbatim>\<open>pykotor/deep/b.py\<close> is removable; \<open>prune_after\<close> is that tree without
  \<^verbatim>\<open>pykotor\<close>.
\<close>

definition keep_py :: path where
  "keep_py = vendor_dir @ [''utility'', ''keep.py'']"

definition deep_dir :: path where
  "deep_dir = vendor_dir @ [''pykotor'', ''deep'']"

definition prune_fs :: filesystem where
  "prune_fs =
     [([], Dir 4096),
      ([''vendor''], Dir 4096),
      ([''vendor'', ''holopatcher_py''], Dir 4096),
      ([''vendor'', ''holopatcher_py'', ''holopatcher''], Dir 4096),
      ([''vendor'', ''holopatcher_py'', ''holopatcher'', ''__main__.py''],
         File 120 (Module [Import [''utility'']])),
      ([''vendor'', ''holopatcher_py'', ''utility''], Dir 4096),
      ([''vendor'', ''holopatcher_py'', ''utility'', ''keep.py''], File 40 (Module [])),
      ([''vendor'', ''holopatcher_py'', ''utility'', ''README''], File 5 Unreadable),
      ([''vendor'', ''holopatcher_py'', ''pykotor''], Dir 4096),
      ([''vendor'', ''holopatcher_py'', ''pykotor'', ''deep''], Dir 4096),
      ([''vendor'', ''holopatcher_py'', ''pykotor'', ''deep'', ''b.py''], File 20 (Module []))]"

definition prune_rem :: "path list" where
  "prune_rem = sort (removable prune_fs [keep_py, entry_point])"

definition prune_after :: filesystem where
  "prune_after =
     [([], Dir 4096),
      ([''vendor''], Dir 4096),
      ([''vendor'', ''holopatcher_py''], Dir 4096),
      ([''vendor'', ''holopatcher_py'', ''holopatcher''], Dir 4096),
      ([''vendor'', ''holopatcher_py'', ''holopatcher'', ''__main__.py''],
         File 120 (Module [Import [''utility'']])),
      ([''vendor'', ''holopatcher_py'', ''utility''], Dir 4096),
      ([''vendor'', ''holopatcher_py'', ''utility'', ''keep.py''], File 40 (Module [])),
      ([''vendor'', ''holopatcher_py'', ''utility'', ''README''], File 5 Unreadable)]"

text \<open>The vendored root with nothing in it.\<close>

definition bare_fs :: filesystem where
  "bare_fs = [([], Dir 4096), ([''vendor''], Dir 4096), ([''vendor'', ''holopatcher_py''], Dir 4096)]"

text \<open>
  A tree where the entry point imports \<^verbatim>\<open>utility\<close>, and \<^verbatim>\<open>utility/gui/qt\<close>, one of the
  listed unused directories, holds a \<^verbatim>\<open>.py\<close> file; \<open>qt_after\<close> is that tree without
  \<^verbatim>\<open>utility/gui/qt\<close>.
\<close>

definition qt_dir :: path where
  "qt_dir = vendor_dir @ [''utility'', ''gui'', ''qt'']"

definition widget_py :: path where
  "widget_py = qt_dir @ [''widget.py'']"

definition qt_fs :: filesystem where
  "qt_fs =
     [([], Dir 4096),
      ([''vendor''], Dir 4096),
      ([''vendor'', ''holopatcher_py''], Dir 4096),
      ([''vendor'', ''holopatcher_py'', ''holopatcher''], Dir 4096),
      ([''vendor'', ''holopatcher_py'', ''holopatcher'', ''__main__.py''],
         File 120 (Module [Import [''utility'']])),
      ([''vendor'', ''holopatcher_py'', ''utility''], Dir 4096),
      ([''vendor'', ''holopatcher_py'', ''utility'', ''gui''], Dir 4096),
      ([''vendor'', ''holopatcher_py'', ''utility'', ''gui'', ''qt''], Dir 4096),
      ([''vendor'', ''holopatcher_py'', ''utility'', ''gui'', ''qt'', ''widget.py''],
         File 70 (Module []))]"

definition qt_after :: filesystem where
  "qt_after =
     [([], Dir 4096),
      ([''vendor''], Dir 4096),
      ([''vendor'', ''holopatcher_py''], Dir 4096),
      ([''vendor'', ''holopatcher_py'', ''holopatcher''], Dir 4096),
      ([''vendor'', ''holopatcher_py'', ''holopatcher'', ''__main__.py''],
         File 120 (Module [Import [''utility'']])),
      ([''vendor'', ''holopatcher_py'', ''utility''], Dir 4096),
      ([''vendor'', ''holopatcher_py'', ''utility'', ''gui''], Dir 4096)]"

section \<open>The closure builder: one iteration\<close>

lemma set_add_new: "set (add_new vis files tp) = set tp \<union> (set files - set vis)"
  unfolding add_new_def by (induction files arbitrary: tp) auto

lemma set_map_import:
  "set (map_import fs root_dir vis imp tp) =
     set tp \<union> ((if imp \<in> set root_set \<and> path_exists fs (root_dir @ [imp])
                 then set (rglob fs (root_dir @ [imp]) ''*.py'') else {}) - set vis)"
  by (simp add: map_import_def Let_def set_add_new)

lemma set_fold_map_import:
  "set (fold (map_import fs root_dir vis) imps tp) =
     set tp \<union> ((\<Union>imp \<in> set imps.
                   if imp \<in> set root_set \<and> path_exists fs (root_dir @ [imp])
                   then set (rglob fs (root_dir @ [imp]) ''*.py'') else {}) - set vis)"
proof (induction imps arbitrary: tp)
  case Nil
  show ?case by simp
next
  case (Cons imp imps)
  show ?case
    unfolding fold_simps Cons.IH set_map_import by auto
qed

lemma pick_mem: "tp \<noteq> [] \<Longrightarrow> pick ch tp \<in> set tp"
  by (simp add: pick_def)

lemma dep_step_seen:
  "pick ch (to_process s) \<in> set (visited s) \<Longrightarrow>
   dep_step ch fs root_dir s = s\<lparr>to_process := removeAll (pick ch (to_process s)) (to_process s)\<rparr>"
  by (simp add: dep_step_def Let_def)

lemma dep_step_other:
  "pick ch (to_process s) \<notin> set (visited s) \<Longrightarrow> \<not> source_file fs (pick ch (to_process s)) \<Longrightarrow>
   dep_step ch fs root_dir s =
     s\<lparr>visited := pick ch (to_process s) # visited s,
       to_process := removeAll (pick ch (to_process s)) (to_process s)\<rparr>"
  by (auto simp add: dep_step_def Let_def source_file_def)

lemma dep_step_source:
  assumes "pick ch (to_process s) \<notin> set (visited s)" and "source_file fs (pick ch (to_process s))"
  shows "visited (dep_step ch fs root_dir s) = pick ch (to_process s) # visited s"
    and "set (to_process (dep_step ch fs root_dir s)) =
           (set (to_process s) - {pick ch (to_process s)})
           \<union> (targets fs root_dir (pick ch (to_process s))
                - insert (pick ch (to_process s)) (set (visited s)))"
    and "all_files (dep_step ch fs root_dir s) = pick ch (to_process s) # all_files s"
    and "printed (dep_step ch fs root_dir s) =
           printed s @ snd (find_imports_in_file fs (pick ch (to_process s)))"
  using assms
  by (auto simp add: dep_step_def Let_def source_file_def set_fold_map_import targets_def
      imports_of_def split: prod.splits)

lemma fnmatch_star_py: "fnmatch ''*.py'' (xs @ ''.py'')"
  by (induction xs) simp_all

lemma suffix_py_fnmatch:
  assumes "suffix p = ''.py''"
  shows "fnmatch ''*.py'' (last p)"
proof -
  from assms have "drop (nat (rfind (CHR ''.'') (last p))) (last p) = ''.py''"
    by (auto simp: suffix_def Let_def split: if_splits)
  then have "last p = take (nat (rfind (CHR ''.'') (last p))) (last p) @ ''.py''"
    by (metis append_take_drop_id)
  then show ?thesis
    using fnmatch_star_py by metis
qed

lemma mem_keys_iff: "p \<in> set (map fst fs) \<longleftrightarrow> path_exists fs p"
  by (simp add: path_exists_def map_of_eq_None_iff)

lemma is_dir_exists: "is_dir fs d \<Longrightarrow> path_exists fs d"
  by (auto simp: is_dir_def path_exists_def split: option.splits)

lemma mem_rglob:
  "g \<in> set (rglob fs d pat) \<longleftrightarrow> is_dir fs d \<and> path_exists fs g \<and> under d g \<and> fnmatch pat (last g)"
  using mem_keys_iff[of g fs] by (auto simp: rglob_def)

lemma mem_targets:
  "g \<in> targets fs root_dir f \<longleftrightarrow>
     (\<exists>imp \<in> imports_of fs f. imp \<in> set root_set \<and> is_dir fs (root_dir @ [imp]) \<and>
        path_exists fs g \<and> under (root_dir @ [imp]) g \<and> fnmatch ''*.py'' (last g))"
  by (auto simp: targets_def mem_rglob is_dir_exists split: if_splits)

lemma targets_keys: "targets fs root_dir f \<subseteq> set (map fst fs)"
  by (auto simp: mem_targets mem_keys_iff simp del: set_map)

lemma reachable_via_targets:
  "f \<in> reachable fs root_dir start \<Longrightarrow> g \<in> targets fs root_dir f \<Longrightarrow> source_file fs g \<Longrightarrow>
   g \<in> reachable fs root_dir start"
  by (auto simp: mem_targets intro: reachable.module)

lemma reachable_source_file: "g \<in> reachable fs root_dir start \<Longrightarrow> source_file fs g"
  by (induction rule: reachable.induct) auto

lemma dep_inv_init: "dep_inv fs root_dir start (dep_init start)"
  by (simp add: dep_inv_def dep_init_def)

lemma dep_inv_step:
  assumes inv: "dep_inv fs root_dir start s" and ne: "to_process s \<noteq> []"
  shows "dep_inv fs root_dir start (dep_step ch fs root_dir s)"
proof -
  define c where "c = pick ch (to_process s)"
  have cT: "c \<in> set (to_process s)"
    unfolding c_def using ne by (rule pick_mem)
  with inv have cV: "c \<notin> set (visited s)"
    by (auto simp: dep_inv_def)
  have c_prov: "c = start \<or> (\<exists>f \<in> reachable fs root_dir start. c \<in> targets fs root_dir f)"
    using inv cT by (auto simp: dep_inv_def)
  show ?thesis
  proof (cases "source_file fs c")
    case False
    then have st: "dep_step ch fs root_dir s = s\<lparr>visited := c # visited s, to_process := removeAll c (to_process s)\<rparr>"
      using cV dep_step_other[of ch s fs root_dir] by (simp add: c_def)
    show ?thesis
      unfolding st using inv cT cV False
      by (auto simp: dep_inv_def)
  next
    case True
    note st = dep_step_source[of ch s fs root_dir, folded c_def, OF cV True]
    have c_reach: "c \<in> reachable fs root_dir start"
      using c_prov True by (auto intro: reachable.entry reachable_via_targets)
    have tk: "targets fs root_dir c \<subseteq> set (map fst fs)"
      by (rule targets_keys)
    show ?thesis
      unfolding dep_inv_def st
    proof (intro conjI)
      show "distinct (c # visited s)" using inv cV by (simp add: dep_inv_def)
      show "(set (to_process s) - {c} \<union> (targets fs root_dir c - insert c (set (visited s)))) \<inter> set (c # visited s) = {}"
        using inv by (auto simp: dep_inv_def)
      show "set (to_process s) - {c} \<union> (targets fs root_dir c - insert c (set (visited s))) \<union> set (c # visited s)
            \<subseteq> insert start (set (map fst fs))"
        using inv cT tk by (auto simp: dep_inv_def)
      show "c # all_files s = filter (source_file fs) (c # visited s)"
        using inv True by (simp add: dep_inv_def)
      show "start \<in> set (to_process s) - {c} \<union> (targets fs root_dir c - insert c (set (visited s))) \<union> set (c # visited s)"
        using inv by (auto simp: dep_inv_def)
      show "\<forall>f\<in>set (c # visited s). source_file fs f \<longrightarrow>
              targets fs root_dir f \<subseteq> set (c # visited s) \<union> (set (to_process s) - {c} \<union> (targets fs root_dir c - insert c (set (visited s))))"
        using inv by (auto simp: dep_inv_def)
      show "\<forall>g\<in>set (to_process s) - {c} \<union> (targets fs root_dir c - insert c (set (visited s))) \<union> set (c # visited s).
              g = start \<or> (\<exists>f\<in>reachable fs root_dir start. g \<in> targets fs root_dir f)"
        using inv c_reach c_prov by (auto simp: dep_inv_def)
      show "printed s @ snd (find_imports_in_file fs c) =
              concat (map (\<lambda>f. snd (find_imports_in_file fs f)) (rev (c # all_files s)))"
        using inv by (simp add: dep_inv_def)
    qed
  qed
qed


lemma dep_step_visited:
  assumes "pick ch (to_process s) \<notin> set (visited s)"
  shows "visited (dep_step ch fs root_dir s) = pick ch (to_process s) # visited s"
proof (cases "source_file fs (pick ch (to_process s))")
  case True
  with assms show ?thesis by (rule dep_step_source(1))
next
  case False
  with assms show ?thesis by (simp add: dep_step_other)
qed

lemma dep_step_decreases:
  assumes inv: "dep_inv fs root_dir start s" and ne: "to_process s \<noteq> []"
  shows "card (insert start (set (map fst fs)) - set (visited (dep_step ch fs root_dir s)))
         < card (insert start (set (map fst fs)) - set (visited s))"
proof -
  let ?c = "pick ch (to_process s)" and ?U = "insert start (set (map fst fs))"
  have cT: "?c \<in> set (to_process s)"
    using ne by (rule pick_mem)
  with inv have cV: "?c \<notin> set (visited s)" and cU: "?c \<in> ?U"
    by (auto simp: dep_inv_def)
  have "?U - set (?c # visited s) \<subset> ?U - set (visited s)"
    using cV cU by auto
  moreover have "finite (?U - set (visited s))"
    by simp
  ultimately show ?thesis
    unfolding dep_step_visited[OF cV] by (rule psubset_card_mono[rotated])
qed

lemma dep_loop_terminates: "\<exists>s. dep_loop ch fs start root_dir = Some s"
  unfolding dep_loop_def
proof (rule measure_while_option_Some[where P = "dep_inv fs root_dir start"
      and f = "\<lambda>s. card (insert start (set (map fst fs)) - set (visited s))"])
  fix s
  assume "dep_inv fs root_dir start s" and "to_process s \<noteq> []"
  then show "dep_inv fs root_dir start (dep_step ch fs root_dir s) \<and>
      card (insert start (set (map fst fs)) - set (visited (dep_step ch fs root_dir s)))
      < card (insert start (set (map fst fs)) - set (visited s))"
    by (intro conjI dep_inv_step dep_step_decreases)
next
  show "dep_inv fs root_dir start (dep_init start)"
    by (rule dep_inv_init)
qed

lemma dep_loop_final:
  assumes "dep_loop ch fs start root_dir = Some s"
  shows "dep_inv fs root_dir start s" and "to_process s = []"
proof -
  show "dep_inv fs root_dir start s"
    using assms unfolding dep_loop_def
    by (rule while_option_rule[where P = "dep_inv fs root_dir start", rotated])
       (simp_all add: dep_inv_step dep_inv_init)
  show "to_process s = []"
    using while_option_stop[OF assms[unfolded dep_loop_def]] by simp
qed

lemma closed_all_files:
  assumes inv: "dep_inv fs root_dir start s" and fin: "to_process s = []"
  shows "set (all_files s) = reachable fs root_dir start"
proof
  show "set (all_files s) \<subseteq> reachable fs root_dir start"
  proof
    fix g assume "g \<in> set (all_files s)"
    with inv have gV: "g \<in> set (visited s)" and src: "source_file fs g"
      by (auto simp: dep_inv_def)
    from inv gV have "g = start \<or> (\<exists>f \<in> reachable fs root_dir start. g \<in> targets fs root_dir f)"
      by (auto simp: dep_inv_def)
    with src show "g \<in> reachable fs root_dir start"
      by (auto intro: reachable.entry reachable_via_targets)
  qed
  show "reachable fs root_dir start \<subseteq> set (all_files s)"
  proof
    fix g assume "g \<in> reachable fs root_dir start"
    then show "g \<in> set (all_files s)"
    proof (induction rule: reachable.induct)
      case entry
      with inv fin show ?case by (auto simp: dep_inv_def)
    next
      case (module f imp g)
      from module.IH inv have fV: "f \<in> set (visited s)" and fsrc: "source_file fs f"
        by (auto simp: dep_inv_def)
      from module.hyps have "g \<in> targets fs root_dir f"
        by (auto simp: mem_targets source_file_def intro: suffix_py_fnmatch)
      with inv fin fV fsrc have "g \<in> set (visited s)"
        by (auto simp: dep_inv_def)
      with inv module.hyps show ?case by (simp add: dep_inv_def)
    qed
  qed
qed

lemma find_all_dependencies_Some:
  "\<exists>s. find_all_dependencies ch fs start root_dir = Some (all_files s, printed s) \<and>
       dep_inv fs root_dir start s \<and> to_process s = [] \<and> dep_loop ch fs start root_dir = Some s"
  using dep_loop_terminates[of ch fs start root_dir]
  by (auto simp: find_all_dependencies_def dep_loop_final)

lemma find_all_dependencies_total:
  "\<exists>files msgs. find_all_dependencies ch fs start root_dir = Some (files, msgs)"
  using find_all_dependencies_Some[of ch fs start root_dir] by auto

lemma find_all_dependencies_set:
  assumes "find_all_dependencies ch fs start root_dir = Some (files, msgs)"
  shows "set files = reachable fs root_dir start" and "distinct files"
proof -
  from find_all_dependencies_Some[of ch fs start root_dir] assms
  obtain s where s: "files = all_files s" "dep_inv fs root_dir start s" "to_process s = []"
    by auto
  show "set files = reachable fs root_dir start"
    using s by (simp add: closed_all_files)
  show "distinct files"
    using s by (simp add: dep_inv_def)
qed

section \<open>The closure builder: result and termination\<close>

lemma count_list_distinct: "distinct xs \<Longrightarrow> x \<in> set xs \<Longrightarrow> count_list xs x = 1"
  by (induction xs) auto

lemma map_import_external: "imp \<notin> set root_set \<Longrightarrow> map_import fs root_dir vis imp tp = tp"
  by (simp add: map_import_def)

text \<open>
  C1. For every entry file and root directory, and whatever element \<^verbatim>\<open>pop\<close> chooses, the
  closure builder returns, and its result set is exactly the set of source files reachable
  from the entry file by following static imports, where a reference to a name of the
  root set pulls in every source file below that root module's directory, transitively.
  A reference to a name outside the root set adds nothing to the work set, and each file
  is in the result once.
\<close>

theorem closure_is_reachable_set:
  "(\<exists>files msgs. find_all_dependencies ch fs start_file root_dir = Some (files, msgs) \<and>
      set files = reachable fs root_dir start_file \<and> distinct files) \<and>
   (\<forall>imp vis tp. imp \<notin> set root_set \<longrightarrow> map_import fs root_dir vis imp tp = tp)"
proof -
  obtain files msgs where s: "find_all_dependencies ch fs start_file root_dir = Some (files, msgs)"
    using find_all_dependencies_total[of ch fs start_file root_dir] by auto
  from find_all_dependencies_set[OF s] s show ?thesis
    by (auto simp: map_import_external)
qed

theorem closure_is_reachable_set_witness:
  "reachable scenario_fs vendor_dir entry_point = {entry_point, init_py, helper_py}"
proof -
  have run: "find_all_dependencies first_choice scenario_fs entry_point vendor_dir
             = Some ([init_py, helper_py, entry_point], [])"
    by code_simp
  from closure_is_reachable_set[of first_choice scenario_fs entry_point vendor_dir] run
  show ?thesis by auto
qed

text \<open>
  C4. For every tree, with or without cycles and diamonds in its import graph, the loop of
  the closure builder ends; every file is processed at most once (the list \<open>visited\<close>
  gets a file each time one is processed, and has no repetition); no file is twice in the
  result. In the tree \<open>cycle_fs\<close>, where the entry file imports the root module that
  holds \<^verbatim>\<open>b.py\<close> and \<^verbatim>\<open>b.py\<close> imports the root module that holds the entry file, each of
  the two is exactly once in the result.
\<close>

theorem closure_terminates_once:
  "(\<exists>s. dep_loop ch fs start_file root_dir = Some s \<and> to_process s = [] \<and>
        distinct (visited s) \<and> distinct (all_files s)) \<and>
   (\<exists>files msgs. find_all_dependencies ch cycle_fs entry_point vendor_dir = Some (files, msgs) \<and>
        count_list files entry_point = 1 \<and> count_list files cycle_b = 1)"
proof
  obtain s where s: "dep_inv fs root_dir start_file s" "to_process s = []"
      "dep_loop ch fs start_file root_dir = Some s"
    using find_all_dependencies_Some[of ch fs start_file root_dir] by blast
  then show "\<exists>s. dep_loop ch fs start_file root_dir = Some s \<and> to_process s = [] \<and>
        distinct (visited s) \<and> distinct (all_files s)"
    by (auto simp: dep_inv_def)
next
  have run: "find_all_dependencies first_choice cycle_fs entry_point vendor_dir
             = Some ([cycle_b, entry_point], [])"
    by code_simp
  obtain files msgs where s: "find_all_dependencies ch cycle_fs entry_point vendor_dir = Some (files, msgs)"
    using find_all_dependencies_total[of ch cycle_fs entry_point vendor_dir] by auto
  have "set files = set [cycle_b, entry_point]"
    using find_all_dependencies_set(1)[OF s] find_all_dependencies_set(1)[OF run] by simp
  with find_all_dependencies_set(2)[OF s] s
  show "\<exists>files msgs. find_all_dependencies ch cycle_fs entry_point vendor_dir = Some (files, msgs) \<and>
        count_list files entry_point = 1 \<and> count_list files cycle_b = 1"
    by (auto simp: count_list_distinct)
qed

theorem closure_terminates_once_witness:
  "dep_loop first_choice cycle_fs entry_point vendor_dir \<noteq> None \<and>
   find_all_dependencies first_choice cycle_fs entry_point vendor_dir \<noteq> None"
  using closure_terminates_once[of first_choice cycle_fs entry_point vendor_dir]
  by auto

section \<open>Inventory and removable files\<close>

lemma under_append: "under (d @ [x]) g \<Longrightarrow> under d g"
proof -
  assume a: "under (d @ [x]) g"
  then have "take (length d) (take (length (d @ [x])) g) = take (length d) (d @ [x])"
    by (simp only: under_def)
  then have "take (length d) g = d" by simp
  with a show ?thesis by (simp add: under_def)
qed

lemma wf_parent_dir: "wf_fs fs \<Longrightarrow> path_exists fs (d @ [x]) \<Longrightarrow> is_dir fs d"
  using mem_keys_iff[of "d @ [x]" fs] by (auto simp: wf_fs_def parent_def simp del: set_map)

lemma reachable_in_inventory:
  assumes wf: "wf_fs fs" and g: "g \<in> reachable fs vendor_dir entry_point"
  shows "g \<in> set (rglob fs vendor_dir ''*.py'')"
  using g
proof (cases rule: reachable.cases)
  case entry
  then have ex: "path_exists fs (vendor_dir @ [''holopatcher'', ''__main__.py''])"
    by (simp add: source_file_def entry_point_def)
  then have "is_dir fs (vendor_dir @ [''holopatcher''])"
    using wf_parent_dir[OF wf, of "vendor_dir @ [''holopatcher'']" "''__main__.py''"] by simp
  then have "is_dir fs vendor_dir"
    using wf_parent_dir[OF wf, of vendor_dir "''holopatcher''"] by (simp add: is_dir_exists)
  moreover have "under vendor_dir entry_point"
    by (simp add: under_def entry_point_def)
  ultimately show ?thesis
    using entry by (simp add: mem_rglob source_file_def suffix_py_fnmatch)
next
  case (module f imp)
  then have "is_dir fs vendor_dir"
    using wf_parent_dir[OF wf, of vendor_dir imp] by (simp add: is_dir_exists)
  with module show ?thesis
    by (simp add: mem_rglob source_file_def suffix_py_fnmatch under_append)
qed

text \<open>
  C3. In \<^verbatim>\<open>main\<close>, for every well-formed tree, the set of required files computed from the
  entry point is a subset of the inventory (the \<^verbatim>\<open>.py\<close> paths below the vendored root),
  and the removable set is the inventory minus the required set: the two are disjoint and
  their union is the inventory.
\<close>

theorem required_subset_inventory:
  assumes "wf_fs fs"
  shows "\<exists>required msgs.
     find_all_dependencies ch fs entry_point vendor_dir = Some (required, msgs) \<and>
     set required \<subseteq> set (all_py_files fs) \<and>
     set (removable fs required) = set (all_py_files fs) - set required \<and>
     set (removable fs required) \<inter> set required = {} \<and>
     set (removable fs required) \<union> set required = set (all_py_files fs)"
proof -
  obtain required msgs where r: "find_all_dependencies ch fs entry_point vendor_dir = Some (required, msgs)"
    using find_all_dependencies_total[of ch fs entry_point vendor_dir] by auto
  have sub: "set required \<subseteq> set (all_py_files fs)"
    using find_all_dependencies_set(1)[OF r] reachable_in_inventory[OF assms]
    by (auto simp: all_py_files_def)
  have "set (removable fs required) = set (all_py_files fs) - set required"
    by (auto simp: removable_def)
  with sub r show ?thesis by auto
qed

theorem required_subset_inventory_witness:
  "wf_fs scenario_fs \<and>
   (\<exists>required msgs.
     find_all_dependencies first_choice scenario_fs entry_point vendor_dir = Some (required, msgs) \<and>
     set required \<subseteq> set (all_py_files scenario_fs) \<and>
     set (removable scenario_fs required) = set (all_py_files scenario_fs) - set required \<and>
     set (removable scenario_fs required) \<inter> set required = {} \<and>
     set (removable scenario_fs required) \<union> set required = set (all_py_files scenario_fs))"
proof -
  have wf: "wf_fs scenario_fs"
    by code_simp
  from wf required_subset_inventory[OF wf, of first_choice] show ?thesis
    by simp
qed

text \<open>
  C2 as stated fails. In \<open>scenario_fs\<close> the entry file imports the root module
  \<^verbatim>\<open>utility\<close> (the root set of the script is fixed, so \<^verbatim>\<open>utility\<close> stands for the
  \<^verbatim>\<open>libfoo\<close> of the scenario), \<^verbatim>\<open>utility/__init__.py\<close> imports nothing and
  \<^verbatim>\<open>utility/helper.py\<close> is imported nowhere. The result holds \<^verbatim>\<open>helper.py\<close> all the same,
  and \<^verbatim>\<open>helper.py\<close> is not removable.
\<close>

theorem whole_directory_counterexample:
  "find_all_dependencies first_choice scenario_fs entry_point vendor_dir
     = Some ([init_py, helper_py, entry_point], []) \<and>
   fst (find_imports_in_file scenario_fs init_py) = [] \<and>
   fst (find_imports_in_file scenario_fs helper_py) = [] \<and>
   fst (find_imports_in_file scenario_fs entry_point) = [''utility'', ''os''] \<and>
   set [init_py, helper_py, entry_point] \<noteq> {entry_point, init_py} \<and>
   helper_py \<notin> set (removable scenario_fs [init_py, helper_py, entry_point])"
  by code_simp

text \<open>
  C2, amended. A file other than the entry file is in the result only if it lies below
  the directory of a root module that some file of the result imports; so a file below a
  first-party root whose root module no reached file imports never appears. In the
  scenario the result is the entry file together with every \<^verbatim>\<open>.py\<close> file of the imported
  root module, \<^verbatim>\<open>helper.py\<close> included, and nothing is removable.
\<close>

theorem unimported_root_excluded:
  "(\<forall>files msgs g. find_all_dependencies ch fs start_file root_dir = Some (files, msgs) \<longrightarrow>
       g \<in> set files \<longrightarrow> g \<noteq> start_file \<longrightarrow>
       (\<exists>f \<in> set files. \<exists>imp \<in> imports_of fs f. imp \<in> set root_set \<and> under (root_dir @ [imp]) g)) \<and>
   (\<exists>files msgs. find_all_dependencies ch scenario_fs entry_point vendor_dir = Some (files, msgs) \<and>
       set files = {entry_point, init_py, helper_py} \<and> removable scenario_fs files = [])"
proof
  show "\<forall>files msgs g. find_all_dependencies ch fs start_file root_dir = Some (files, msgs) \<longrightarrow>
       g \<in> set files \<longrightarrow> g \<noteq> start_file \<longrightarrow>
       (\<exists>f \<in> set files. \<exists>imp \<in> imports_of fs f. imp \<in> set root_set \<and> under (root_dir @ [imp]) g)"
  proof (intro allI impI)
    fix files msgs g
    assume r: "find_all_dependencies ch fs start_file root_dir = Some (files, msgs)"
      and g: "g \<in> set files" and ne: "g \<noteq> start_file"
    note eq = find_all_dependencies_set(1)[OF r]
    from g have "g \<in> reachable fs root_dir start_file" by (simp add: eq)
    then show "\<exists>f \<in> set files. \<exists>imp \<in> imports_of fs f. imp \<in> set root_set \<and> under (root_dir @ [imp]) g"
      using ne unfolding eq by (cases rule: reachable.cases) auto
  qed
next
  have run: "find_all_dependencies first_choice scenario_fs entry_point vendor_dir
             = Some ([init_py, helper_py, entry_point], [])"
    by code_simp
  obtain files msgs where r: "find_all_dependencies ch scenario_fs entry_point vendor_dir = Some (files, msgs)"
    using find_all_dependencies_total[of ch scenario_fs entry_point vendor_dir] by auto
  have s: "set files = {entry_point, init_py, helper_py}"
    using find_all_dependencies_set(1)[OF r] find_all_dependencies_set(1)[OF run] by auto
  have inv: "set (all_py_files scenario_fs) = {entry_point, init_py, helper_py}"
    by code_simp
  have "set (removable scenario_fs files) = {}"
    unfolding removable_def using s inv by auto
  with r s show "\<exists>files msgs. find_all_dependencies ch scenario_fs entry_point vendor_dir = Some (files, msgs) \<and>
       set files = {entry_point, init_py, helper_py} \<and> removable scenario_fs files = []"
    by auto
qed

theorem unimported_root_excluded_witness:
  "\<exists>f \<in> set [init_py, helper_py, entry_point]. \<exists>imp \<in> imports_of scenario_fs f.
      imp \<in> set root_set \<and> under (vendor_dir @ [imp]) helper_py"
proof -
  have run: "find_all_dependencies first_choice scenario_fs entry_point vendor_dir
             = Some ([init_py, helper_py, entry_point], [])"
    by code_simp
  have ne: "helper_py \<noteq> entry_point"
    by code_simp
  from unimported_root_excluded[of first_choice scenario_fs entry_point vendor_dir] run ne
  show ?thesis by auto
qed

section \<open>Files that do not parse\<close>

lemma map_of_set_source:
  "map_of (set_source p c fs) q =
     map_option (\<lambda>n. if q = p then (case n of File sz old \<Rightarrow> File sz c | Dir sz \<Rightarrow> n) else n) (map_of fs q)"
  unfolding set_source_def by (induction fs) (auto split: node.splits)

lemma path_exists_set_source: "path_exists (set_source p c fs) q = path_exists fs q"
  by (simp add: path_exists_def map_of_set_source)

lemma is_dir_set_source: "is_dir (set_source p c fs) q = is_dir fs q"
  by (auto simp: is_dir_def map_of_set_source split: option.splits node.splits)

lemma map_of_set_source_other: "q \<noteq> p \<Longrightarrow> map_of (set_source p c fs) q = map_of fs q"
  by (simp add: map_of_set_source option.map_ident)

lemma imports_of_set_source_other:
  "q \<noteq> p \<Longrightarrow> imports_of (set_source p c fs) q = imports_of fs q"
  by (simp add: imports_of_def find_imports_in_file_def read_source_def map_of_set_source_other)

lemma imports_of_set_source_empty:
  "c = Unreadable \<or> c = Module [] \<Longrightarrow> imports_of (set_source p c fs) p = {}"
  by (auto simp: imports_of_def find_imports_in_file_def read_source_def map_of_set_source
      split: option.splits node.splits source.splits)

lemma reachable_cong:
  assumes ex: "\<And>q. path_exists fs q = path_exists fs' q"
    and d: "\<And>q. is_dir fs q = is_dir fs' q"
    and im: "\<And>q. imports_of fs q = imports_of fs' q"
  shows "reachable fs root_dir start = reachable fs' root_dir start"
proof -
  have "g \<in> reachable a root_dir start \<Longrightarrow> g \<in> reachable b root_dir start"
    if "\<And>q. path_exists a q = path_exists b q" "\<And>q. is_dir a q = is_dir b q"
       "\<And>q. imports_of a q = imports_of b q" for a b g
  proof (induction rule: reachable.induct)
    case entry
    then show ?case using that by (auto simp: source_file_def intro: reachable.entry)
  next
    case (module f imp g)
    show ?case
      by (rule reachable.module[OF module.IH, of imp])
         (use module.hyps that in \<open>auto simp: source_file_def\<close>)
  qed
  from this[of fs fs'] this[of fs' fs] assms show ?thesis
    by auto
qed

lemma find_all_dependencies_printed:
  assumes "find_all_dependencies ch fs start root_dir = Some (files, msgs)"
  shows "set msgs = {Warning f | f. f \<in> set files \<and> read_source fs f = None}"
proof -
  from find_all_dependencies_Some[of ch fs start root_dir] assms
  obtain s where s: "files = all_files s" "msgs = printed s" "dep_inv fs root_dir start s"
    by auto
  have "set (concat (map (\<lambda>f. snd (find_imports_in_file fs f)) xs))
        = {Warning f | f. f \<in> set xs \<and> read_source fs f = None}" for xs
    by (induction xs) (auto simp: find_imports_in_file_def split: option.splits)
  from this[of "rev (all_files s)"] s show ?thesis
    by (simp add: dep_inv_def)
qed

text \<open>
  C6. For a file whose text cannot be read or parsed, the reference extractor prints a
  warning and returns the empty reference set, without raising. The closure builder
  still returns: it records a warning for exactly the files of the result that fail to
  parse, and the result set is the one it computes when the malformed file parses and
  imports nothing, so the membership of every file is as if that file had no references.
\<close>

theorem parse_failure_recovered:
  "(read_source fs p = None \<longrightarrow> find_imports_in_file fs p = ([], [Warning p])) \<and>
   (\<exists>files msgs. find_all_dependencies ch fs start_file root_dir = Some (files, msgs) \<and>
      set msgs = {Warning f | f. f \<in> set files \<and> read_source fs f = None}) \<and>
   (\<exists>files msgs files' msgs'.
      find_all_dependencies ch (set_source p Unreadable fs) start_file root_dir = Some (files, msgs) \<and>
      find_all_dependencies ch' (set_source p (Module []) fs) start_file root_dir = Some (files', msgs') \<and>
      set files = set files')"
proof (intro conjI)
  show "read_source fs p = None \<longrightarrow> find_imports_in_file fs p = ([], [Warning p])"
    by (simp add: find_imports_in_file_def)
next
  obtain files msgs where r: "find_all_dependencies ch fs start_file root_dir = Some (files, msgs)"
    using find_all_dependencies_total[of ch fs start_file root_dir] by auto
  with find_all_dependencies_printed[OF r]
  show "\<exists>files msgs. find_all_dependencies ch fs start_file root_dir = Some (files, msgs) \<and>
      set msgs = {Warning f | f. f \<in> set files \<and> read_source fs f = None}"
    by blast
next
  let ?a = "set_source p Unreadable fs" and ?b = "set_source p (Module []) fs"
  obtain files msgs where r: "find_all_dependencies ch ?a start_file root_dir = Some (files, msgs)"
    using find_all_dependencies_total[of ch ?a start_file root_dir] by auto
  obtain files' msgs' where r': "find_all_dependencies ch' ?b start_file root_dir = Some (files', msgs')"
    using find_all_dependencies_total[of ch' ?b start_file root_dir] by auto
  have im: "imports_of ?a q = imports_of ?b q" for q
    by (cases "q = p") (simp_all add: imports_of_set_source_other imports_of_set_source_empty)
  have "reachable ?a root_dir start_file = reachable ?b root_dir start_file"
    by (rule reachable_cong) (simp_all add: path_exists_set_source is_dir_set_source im)
  then have "set files = set files'"
    using find_all_dependencies_set(1)[OF r] find_all_dependencies_set(1)[OF r'] by simp
  with r r' show "\<exists>files msgs files' msgs'.
      find_all_dependencies ch ?a start_file root_dir = Some (files, msgs) \<and>
      find_all_dependencies ch' ?b start_file root_dir = Some (files', msgs') \<and>
      set files = set files'"
    by blast
qed

theorem parse_failure_recovered_witness:
  "read_source malformed_fs helper_py = None \<and>
   find_imports_in_file malformed_fs helper_py = ([], [Warning helper_py]) \<and>
   find_all_dependencies first_choice malformed_fs entry_point vendor_dir
     = Some ([init_py, helper_py, entry_point], [Warning helper_py])"
proof -
  have a: "read_source malformed_fs helper_py = None"
    by code_simp
  have b: "find_all_dependencies first_choice malformed_fs entry_point vendor_dir
     = Some ([init_py, helper_py, entry_point], [Warning helper_py])"
    by code_simp
  from parse_failure_recovered[of malformed_fs helper_py first_choice entry_point vendor_dir] a b
  show ?thesis by simp
qed

section \<open>Removing files and pruning directories\<close>

declare prune_parents.simps [simp del]

lemma map_of_remove_key: "map_of (remove_key p fs) q = (if q = p then None else map_of fs q)"
  unfolding remove_key_def by (induction fs) auto

lemma distinct_remove_key: "distinct (map fst fs) \<Longrightarrow> distinct (map fst (remove_key p fs))"
  unfolding remove_key_def by (rule distinct_map_filter)

lemma unlink_Inr: "unlink fs p = Inr fs' \<Longrightarrow> is_file fs p \<and> fs' = remove_key p fs"
  by (auto simp: unlink_def is_file_def split: option.splits node.splits)

lemma iterdir_Nil:
  "iterdir fs d = Inr [] \<longleftrightarrow> is_dir fs d \<and> (\<forall>q. path_exists fs q \<and> q \<noteq> [] \<longrightarrow> parent q \<noteq> d)"
  using mem_keys_iff[of _ fs]
  by (auto simp: iterdir_def is_dir_def parent_def filter_empty_conv simp del: set_map
      split: option.splits node.splits)

lemma rmdir_empty: "iterdir fs d = Inr [] \<Longrightarrow> rmdir fs d = Inr (remove_key d fs)"
  by (simp add: rmdir_def)

lemma prune_parents_unfold:
  "prune_parents fs par = fs \<or>
   (par \<noteq> vendor_dir \<and> iterdir fs par = Inr [] \<and>
    prune_parents fs par = prune_parents (remove_key par fs) (parent par))"
  using prune_parents.simps[of fs par]
  by (auto simp: rmdir_def split: sum.splits if_splits)

lemma prune_parents_induct [consumes 0, case_names stop delete]:
  assumes stop: "\<And>fs par. prune_parents fs par = fs \<Longrightarrow> P fs par"
    and delete: "\<And>fs par. par \<noteq> vendor_dir \<Longrightarrow> iterdir fs par = Inr [] \<Longrightarrow>
        prune_parents fs par = prune_parents (remove_key par fs) (parent par) \<Longrightarrow>
        P (remove_key par fs) (parent par) \<Longrightarrow> P fs par"
  shows "P fs par"
proof (induction fs par rule: prune_parents.induct)
  case (1 fs par)
  from prune_parents_unfold[of fs par] show ?case
  proof (elim disjE conjE)
    assume "prune_parents fs par = fs"
    then show ?thesis by (rule stop)
  next
    assume a: "par \<noteq> vendor_dir" "iterdir fs par = Inr []"
      "prune_parents fs par = prune_parents (remove_key par fs) (parent par)"
    from a(2) have ex: "path_exists fs par"
      by (simp add: iterdir_Nil is_dir_exists)
    have "P (remove_key par fs) (parent par)"
      using "1.IH"[OF _ a(2) refl rmdir_empty[OF a(2)]] a(1) ex by simp
    with a show ?thesis by (rule delete)
  qed
qed

lemma prune_parents_map_le: "map_of (prune_parents fs par) \<subseteq>\<^sub>m map_of fs"
proof (induction fs par rule: prune_parents_induct)
  case (stop fs par)
  then show ?case by simp
next
  case (delete fs par)
  have "map_of (remove_key par fs) \<subseteq>\<^sub>m map_of fs"
    by (simp add: map_le_def map_of_remove_key dom_def)
  with delete show ?case
    by (metis map_le_trans)
qed


lemma map_le_exists: "map_of fs' \<subseteq>\<^sub>m map_of fs \<Longrightarrow> path_exists fs' q \<Longrightarrow> path_exists fs q"
  by (auto simp: map_le_def path_exists_def dom_def)

lemma map_le_is_dir: "map_of fs' \<subseteq>\<^sub>m map_of fs \<Longrightarrow> path_exists fs' q \<Longrightarrow> is_dir fs' q = is_dir fs q"
  by (auto simp: map_le_def path_exists_def is_dir_def dom_def)

lemma map_le_is_file: "map_of fs' \<subseteq>\<^sub>m map_of fs \<Longrightarrow> is_file fs' q \<Longrightarrow> is_file fs q"
  by (auto simp: map_le_def is_file_def dom_def split: option.splits)

lemma remove_key_map_le: "map_of (remove_key p fs) \<subseteq>\<^sub>m map_of fs"
  by (simp add: map_le_def map_of_remove_key dom_def)

lemma exists_remove_key: "path_exists (remove_key p fs) q \<longleftrightarrow> q \<noteq> p \<and> path_exists fs q"
  by (simp add: path_exists_def map_of_remove_key)

lemma is_dir_remove_key: "is_dir (remove_key p fs) q \<longleftrightarrow> q \<noteq> p \<and> is_dir fs q"
  by (simp add: is_dir_def map_of_remove_key)

lemma is_file_remove_key: "is_file (remove_key p fs) q \<longleftrightarrow> q \<noteq> p \<and> is_file fs q"
  by (simp add: is_file_def map_of_remove_key)

lemma file_not_dir: "is_file fs q \<Longrightarrow> \<not> is_dir fs q"
  by (auto simp: is_file_def is_dir_def split: option.splits node.splits)

lemma under_parent: "d = parent par \<or> under d (parent par) \<Longrightarrow> par \<noteq> [] \<Longrightarrow> under d par"
proof -
  assume a: "d = parent par \<or> under d (parent par)" and ne: "par \<noteq> []"
  then obtain xs x where par: "par = xs @ [x]"
    by (metis rev_exhaust)
  from a show ?thesis
    unfolding par parent_def under_def by auto
qed

text \<open>What the walk deletes.\<close>

lemma prune_parents_deleted:
  "path_exists fs d \<Longrightarrow> \<not> path_exists (prune_parents fs par) d \<Longrightarrow>
   is_dir fs d \<and> d \<noteq> vendor_dir \<and> (d = par \<or> under d par) \<and>
   (\<forall>q. path_exists (prune_parents fs par) q \<and> q \<noteq> [] \<longrightarrow> parent q \<noteq> d)"
proof (induction fs par rule: prune_parents_induct)
  case (stop fs par)
  then show ?case by simp
next
  case (delete fs par)
  let ?fs1 = "remove_key par fs" and ?res = "prune_parents fs par"
  note empty = delete.hyps(2)[unfolded iterdir_Nil]
  have le: "map_of ?res \<subseteq>\<^sub>m map_of ?fs1"
    unfolding delete.hyps(3) by (rule prune_parents_map_le)
  show ?case
  proof (cases "d = par")
    case True
    have "parent q \<noteq> par" if "path_exists ?res q" "q \<noteq> []" for q
    proof -
      from that(1) le have "path_exists ?fs1 q" by (rule map_le_exists[rotated])
      with empty that(2) show ?thesis by (simp add: exists_remove_key)
    qed
    with True empty delete.hyps(1) show ?thesis by simp
  next
    case False
    with delete.prems have ex1: "path_exists ?fs1 d" and gone: "\<not> path_exists (prune_parents ?fs1 (parent par)) d"
      by (simp_all add: exists_remove_key delete.hyps(3))
    note IH = delete.IH[OF ex1 gone]
    have "par \<noteq> []"
    proof
      assume "par = []"
      with IH have "d = par" by (simp add: parent_def under_def)
      with False show False ..
    qed
    with IH have "under d par" by (simp add: under_parent)
    with IH show ?thesis
      by (simp add: is_dir_remove_key delete.hyps(3))
  qed
qed

lemma prune_parents_is_file: "is_file fs r \<Longrightarrow> is_file (prune_parents fs par) r"
proof (induction fs par rule: prune_parents_induct)
  case (stop fs par)
  then show ?case by simp
next
  case (delete fs par)
  from delete.hyps(2) have "is_dir fs par" by (simp add: iterdir_Nil)
  with delete.prems have "r \<noteq> par" by (auto dest: file_not_dir)
  with delete show ?case by (simp add: is_file_remove_key)
qed

lemma prune_parents_vendor: "is_dir fs vendor_dir \<Longrightarrow> is_dir (prune_parents fs par) vendor_dir"
proof (induction fs par rule: prune_parents_induct)
  case (stop fs par)
  then show ?case by simp
next
  case (delete fs par)
  then show ?case by (simp add: is_dir_remove_key)
qed

lemma wf_remove_file: 
  assumes wf: "wf_fs fs" and f: "is_file fs p"
  shows "wf_fs (remove_key p fs)"
proof -
  have "is_dir (remove_key p fs) (parent q)"
    if "q \<in> set (map fst (remove_key p fs))" "q \<noteq> []" for q
  proof -
    from that(1) have q: "path_exists fs q"
      unfolding mem_keys_iff by (simp add: exists_remove_key)
    with wf that(2) have d: "is_dir fs (parent q)"
      by (simp add: wf_fs_def mem_keys_iff del: set_map)
    with f have "parent q \<noteq> p" by (auto dest: file_not_dir)
    with d show ?thesis by (simp add: is_dir_remove_key)
  qed
  with wf show ?thesis
    unfolding wf_fs_def by (auto simp: distinct_remove_key simp del: set_map)
qed

lemma wf_remove_empty_dir: 
  assumes wf: "wf_fs fs" and e: "iterdir fs d = Inr []"
  shows "wf_fs (remove_key d fs)"
proof -
  have "is_dir (remove_key d fs) (parent q)"
    if "q \<in> set (map fst (remove_key d fs))" "q \<noteq> []" for q
  proof -
    from that(1) have q: "path_exists fs q"
      unfolding mem_keys_iff by (simp add: exists_remove_key)
    with wf that(2) have "is_dir fs (parent q)"
      by (simp add: wf_fs_def mem_keys_iff del: set_map)
    moreover from e q that(2) have "parent q \<noteq> d"
      by (simp add: iterdir_Nil)
    ultimately show ?thesis by (simp add: is_dir_remove_key)
  qed
  with wf show ?thesis
    unfolding wf_fs_def by (auto simp: distinct_remove_key simp del: set_map)
qed

lemma wf_prune_parents: "wf_fs fs \<Longrightarrow> wf_fs (prune_parents fs par)"
proof (induction fs par rule: prune_parents_induct)
  case (stop fs par)
  then show ?case by simp
next
  case (delete fs par)
  then show ?case by (simp add: wf_remove_empty_dir)
qed


lemma exists_not_file_dir: "path_exists fs d \<Longrightarrow> \<not> is_file fs d \<Longrightarrow> is_dir fs d"
  by (auto simp: path_exists_def is_file_def is_dir_def split: option.splits node.splits)

lemma prune_parents_stops_nonempty:
  assumes stop: "prune_parents fs par = fs" and ne: "par \<noteq> vendor_dir" and d: "is_dir fs par"
  shows "\<exists>q. path_exists fs q \<and> q \<noteq> [] \<and> parent q = par"
proof (rule ccontr)
  assume "\<not> ?thesis"
  with d have e: "iterdir fs par = Inr []"
    by (auto simp: iterdir_Nil)
  with prune_parents_unfold[of fs par] stop
  have "prune_parents (remove_key par fs) (parent par) = fs"
    using prune_parents.simps[of fs par] ne d
    by (simp add: rmdir_empty is_dir_exists)
  then have "map_of fs \<subseteq>\<^sub>m map_of (remove_key par fs)"
    using prune_parents_map_le[of "remove_key par fs" "parent par"] by simp
  from map_le_exists[OF this, of par] d show False
    by (simp add: exists_remove_key is_dir_exists)
qed

lemma prune_parents_occupied:
  assumes "d \<noteq> vendor_dir" and "\<not> is_file fs d"
    and "(path_exists fs d \<longrightarrow> (\<exists>q. path_exists fs q \<and> q \<noteq> [] \<and> parent q = d)) \<or> par = d"
  shows "path_exists (prune_parents fs par) d \<longrightarrow>
         (\<exists>q. path_exists (prune_parents fs par) q \<and> q \<noteq> [] \<and> parent q = d)"
  using assms
proof (induction fs par rule: prune_parents_induct)
  case (stop fs par)
  show ?case
  proof (cases "path_exists fs d \<longrightarrow> (\<exists>q. path_exists fs q \<and> q \<noteq> [] \<and> parent q = d)")
    case True
    then show ?thesis by (simp add: stop.hyps)
  next
    case False
    with stop.prems have "par = d" and "is_dir fs d"
      by (auto intro: exists_not_file_dir)
    with prune_parents_stops_nonempty[OF stop.hyps] stop.prems(1) False show ?thesis
      by simp
  qed
next
  case (delete fs par)
  let ?fs1 = "remove_key par fs"
  have nf: "\<not> is_file ?fs1 d"
    using delete.prems(2) by (simp add: is_file_remove_key)
  have "(path_exists ?fs1 d \<longrightarrow> (\<exists>q. path_exists ?fs1 q \<and> q \<noteq> [] \<and> parent q = d)) \<or> parent par = d"
    using delete.prems(3) by (auto simp: exists_remove_key)
  from delete.IH[OF delete.prems(1) nf this] show ?case
    by (simp add: delete.hyps(3))
qed

lemma remove_files_map_le: "map_of (fst (snd (remove_files fs n rem))) \<subseteq>\<^sub>m map_of fs"
proof (induction rem arbitrary: fs n)
  case Nil
  show ?case by simp
next
  case (Cons p rem)
  show ?case
  proof (cases "unlink fs p")
    case (Inl e)
    then show ?thesis by simp
  next
    case (Inr fs1)
    then have fs1: "fs1 = remove_key p fs" by (simp add: unlink_Inr)
    have "map_of (prune_parents fs1 (parent p)) \<subseteq>\<^sub>m map_of fs"
      using prune_parents_map_le[of fs1 "parent p"] remove_key_map_le[of p fs]
      unfolding fs1 by (rule map_le_trans)
    with Cons[of "prune_parents fs1 (parent p)" "n + 1"] Inr show ?thesis
      by (auto intro: map_le_trans)
  qed
qed

lemma remove_files_absent:
  "remove_files fs n rem = (None, fs', n') \<Longrightarrow> p \<in> set rem \<Longrightarrow> \<not> path_exists fs' p"
proof (induction rem arbitrary: fs n)
  case Nil
  then show ?case by simp
next
  case (Cons a rem)
  from Cons.prems(1) obtain fs1 where u: "unlink fs a = Inr fs1"
    and rest: "remove_files (prune_parents fs1 (parent a)) (n + 1) rem = (None, fs', n')"
    by (auto split: if_splits sum.splits)
  show ?case
  proof (cases "p \<in> set rem")
    case True
    with Cons.IH[OF rest] show ?thesis by simp
  next
    case False
    with Cons.prems(2) have "p = a" by simp
    with u have "\<not> path_exists fs1 p"
      by (auto simp: exists_remove_key dest!: unlink_Inr)
    then have "\<not> path_exists (prune_parents fs1 (parent a)) p"
      using map_le_exists[OF prune_parents_map_le] by blast
    then show ?thesis
      using map_le_exists[OF remove_files_map_le[of "prune_parents fs1 (parent a)" "n + 1" rem], of p] rest
      by auto
  qed
qed

lemma remove_files_is_file:
  "r \<notin> set rem \<Longrightarrow> is_file fs r \<Longrightarrow> is_file (fst (snd (remove_files fs n rem))) r"
proof (induction rem arbitrary: fs n)
  case Nil
  then show ?case by simp
next
  case (Cons a rem)
  show ?case
  proof (cases "unlink fs a")
    case (Inl e)
    with Cons.prems show ?thesis by simp
  next
    case (Inr fs1)
    with Cons.prems have "is_file fs1 r"
      by (auto simp: is_file_remove_key dest!: unlink_Inr)
    then have "is_file (prune_parents fs1 (parent a)) r"
      by (rule prune_parents_is_file)
    with Cons.IH[of "prune_parents fs1 (parent a)" "n + 1"] Cons.prems Inr show ?thesis
      by simp
  qed
qed

lemma remove_files_wf: "wf_fs fs \<Longrightarrow> wf_fs (fst (snd (remove_files fs n rem)))"
proof (induction rem arbitrary: fs n)
  case Nil
  then show ?case by simp
next
  case (Cons a rem)
  show ?case
  proof (cases "unlink fs a")
    case (Inl e)
    with Cons.prems show ?thesis by simp
  next
    case (Inr fs1)
    with Cons.prems have "wf_fs fs1"
      by (auto dest!: unlink_Inr intro: wf_remove_file)
    then have "wf_fs (prune_parents fs1 (parent a))"
      by (rule wf_prune_parents)
    with Cons.IH[of "prune_parents fs1 (parent a)" "n + 1"] Cons.prems Inr show ?thesis
      by simp
  qed
qed

lemma remove_files_vendor:
  "is_dir fs vendor_dir \<Longrightarrow> is_dir (fst (snd (remove_files fs n rem))) vendor_dir"
proof (induction rem arbitrary: fs n)
  case Nil
  then show ?case by simp
next
  case (Cons a rem)
  show ?case
  proof (cases "unlink fs a")
    case (Inl e)
    with Cons.prems show ?thesis by simp
  next
    case (Inr fs1)
    with Cons.prems have "is_dir fs1 vendor_dir"
      by (auto simp: is_dir_remove_key dest!: unlink_Inr dest: file_not_dir)
    then have "is_dir (prune_parents fs1 (parent a)) vendor_dir"
      by (rule prune_parents_vendor)
    with Cons.IH[of "prune_parents fs1 (parent a)" "n + 1"] Cons.prems Inr show ?thesis
      by simp
  qed
qed

lemma remove_files_occupied:
  assumes "remove_files fs n rem = (None, fs', n')" and "d \<noteq> vendor_dir" and "\<not> is_file fs d"
    and "path_exists fs d \<longrightarrow> (\<exists>q. path_exists fs q \<and> q \<noteq> [] \<and> parent q = d)"
  shows "path_exists fs' d \<longrightarrow> (\<exists>q. path_exists fs' q \<and> q \<noteq> [] \<and> parent q = d)"
  using assms
proof (induction rem arbitrary: fs n)
  case Nil
  then show ?case by simp
next
  case (Cons a rem)
  from Cons.prems(1) obtain fs1 where u: "unlink fs a = Inr fs1"
    and rest: "remove_files (prune_parents fs1 (parent a)) (n + 1) rem = (None, fs', n')"
    by (auto split: if_splits sum.splits)
  from u have fs1: "fs1 = remove_key a fs" by (simp add: unlink_Inr)
  let ?fs2 = "prune_parents fs1 (parent a)"
  have nf1: "\<not> is_file fs1 d"
    using Cons.prems(3) by (simp add: fs1 is_file_remove_key)
  have "(path_exists fs1 d \<longrightarrow> (\<exists>q. path_exists fs1 q \<and> q \<noteq> [] \<and> parent q = d)) \<or> parent a = d"
    using Cons.prems(4) by (auto simp: fs1 exists_remove_key)
  from prune_parents_occupied[OF Cons.prems(2) nf1 this]
  have occ2: "path_exists ?fs2 d \<longrightarrow> (\<exists>q. path_exists ?fs2 q \<and> q \<noteq> [] \<and> parent q = d)" .
  have nf2: "\<not> is_file ?fs2 d"
    using nf1 map_le_is_file[OF prune_parents_map_le] by blast
  from Cons.IH[OF rest Cons.prems(2) nf2 occ2] show ?case .
qed

lemma wf_ancestors: "wf_fs fs \<Longrightarrow> path_exists fs r \<Longrightarrow> under d r \<Longrightarrow> is_dir fs d"
proof (induction r rule: rev_induct)
  case Nil
  then show ?case by (simp add: under_def)
next
  case (snoc x r)
  from snoc.prems(1,2) have pd: "is_dir fs r"
    by (rule wf_parent_dir)
  show ?case
  proof (cases "d = r")
    case True
    with pd show ?thesis by simp
  next
    case False
    with snoc.prems(3) have "under d r"
      by (auto simp: under_def less_Suc_eq)
    with snoc.IH[OF snoc.prems(1)] pd show ?thesis
      by (simp add: is_dir_exists)
  qed
qed

lemma iterdir_Inr:
  "iterdir fs d = Inr kids \<Longrightarrow>
   is_dir fs d \<and> (\<forall>q. q \<in> set kids \<longleftrightarrow> path_exists fs q \<and> q \<noteq> [] \<and> parent q = d)"
  using mem_keys_iff[of _ fs]
  by (auto simp: iterdir_def is_dir_def parent_def simp del: set_map split: option.splits node.splits)

lemma remove_files_only_removed_children:
  assumes run: "remove_files fs n rem = (None, fs', n')" and ne: "d \<noteq> vendor_dir"
    and it: "iterdir fs d = Inr kids" and kids: "kids \<noteq> []" "set kids \<subseteq> set rem"
  shows "\<not> path_exists fs' d"
proof
  assume ex: "path_exists fs' d"
  note k = iterdir_Inr[OF it]
  from kids(1) obtain q0 where "q0 \<in> set kids"
    by (cases kids) auto
  with k have occ: "path_exists fs d \<longrightarrow> (\<exists>q. path_exists fs q \<and> q \<noteq> [] \<and> parent q = d)"
    by blast
  from k have "\<not> is_file fs d"
    by (auto dest: file_not_dir)
  from remove_files_occupied[OF run ne this occ] ex
  obtain q where q: "path_exists fs' q" "q \<noteq> []" "parent q = d"
    by blast
  have le: "map_of fs' \<subseteq>\<^sub>m map_of fs"
    using remove_files_map_le[of fs n rem] run by simp
  from map_le_exists[OF le q(1)] q k have "q \<in> set kids"
    by blast
  with kids(2) remove_files_absent[OF run, of q] q(1) show False
    by blast
qed

text \<open>
  C9 as stated fails for the cleanup as a whole. In \<open>qt_fs\<close> the entry point imports
  \<^verbatim>\<open>utility\<close>, so \<^verbatim>\<open>utility/gui/qt/widget.py\<close> is a required file and nothing is
  removable; the run returns 0, and the directory \<^verbatim>\<open>utility/gui/qt\<close>, which held a
  required file, is gone: lines 111 to 116 remove the listed directories with all they
  hold.
\<close>

theorem unused_dir_with_required_file_counterexample:
  "find_all_dependencies first_choice qt_fs entry_point vendor_dir = Some ([widget_py, entry_point], []) \<and>
   is_file qt_fs widget_py \<and> parent widget_py = qt_dir \<and> is_dir qt_fs qt_dir \<and>
   removable qt_fs [widget_py, entry_point] = [] \<and>
   map_option status (main first_choice qt_fs) = Some (Returned 0) \<and>
   map_option fs_after (main first_choice qt_fs) = Some qt_after \<and>
   \<not> path_exists qt_after qt_dir"
  by code_simp

text \<open>
  C9, amended: the claim for the loop over the removable files (lines 120 to 136). The
  walk over the parents deletes a directory only when \<^verbatim>\<open>iterdir\<close> gives nothing at that
  moment, and then goes on from its parent: every directory it deletes is the parent it
  started from or one above it, and has no child left. When the loop runs to its end, a
  well-formed tree stays well-formed (no path is left without its parent directory); a
  directory other than the vendored root whose content was only files of the removable
  set no longer exists; a file that is not in the removable set is still there, and with
  it, in a well-formed tree, every directory above it. (In \<^verbatim>\<open>main\<close> the vendored root
  always holds the directory of the entry point.)
\<close>

theorem pruning_bottom_up:
  "(prune_parents fs par = fs \<or>
      (par \<noteq> vendor_dir \<and> iterdir fs par = Inr [] \<and>
       prune_parents fs par = prune_parents (remove_key par fs) (parent par))) \<and>
   (\<forall>d. path_exists fs d \<and> \<not> path_exists (prune_parents fs par) d \<longrightarrow>
        is_dir fs d \<and> (d = par \<or> under d par) \<and>
        (\<forall>q. path_exists (prune_parents fs par) q \<and> q \<noteq> [] \<longrightarrow> parent q \<noteq> d)) \<and>
   (remove_files fs n rem = (None, fs', n') \<longrightarrow>
      (wf_fs fs \<longrightarrow> wf_fs fs') \<and>
      (\<forall>d kids. d \<noteq> vendor_dir \<and> iterdir fs d = Inr kids \<and> kids \<noteq> [] \<and> set kids \<subseteq> set rem \<longrightarrow>
          \<not> path_exists fs' d) \<and>
      (\<forall>r. is_file fs r \<and> r \<notin> set rem \<longrightarrow>
          is_file fs' r \<and> (wf_fs fs \<longrightarrow> (\<forall>d. under d r \<longrightarrow> is_dir fs' d))))"
proof (intro conjI impI allI)
  show "prune_parents fs par = fs \<or>
      (par \<noteq> vendor_dir \<and> iterdir fs par = Inr [] \<and>
       prune_parents fs par = prune_parents (remove_key par fs) (parent par))"
    by (rule prune_parents_unfold)
next
  fix d
  assume "path_exists fs d \<and> \<not> path_exists (prune_parents fs par) d"
  then have *: "is_dir fs d \<and> d \<noteq> vendor_dir \<and> (d = par \<or> under d par) \<and>
      (\<forall>q. path_exists (prune_parents fs par) q \<and> q \<noteq> [] \<longrightarrow> parent q \<noteq> d)"
    using prune_parents_deleted[of fs d par] by blast
  from * show "is_dir fs d" by blast
  from * show "d = par \<or> under d par" by blast
  fix q
  assume "path_exists (prune_parents fs par) q \<and> q \<noteq> []"
  with * show "parent q \<noteq> d" by blast
next
  assume run: "remove_files fs n rem = (None, fs', n')"
  then have fs': "fs' = fst (snd (remove_files fs n rem))" by simp
  {
    assume "wf_fs fs"
    then show "wf_fs fs'" unfolding fs' by (rule remove_files_wf)
  }
  {
    fix d kids
    assume "d \<noteq> vendor_dir \<and> iterdir fs d = Inr kids \<and> kids \<noteq> [] \<and> set kids \<subseteq> set rem"
    then show "\<not> path_exists fs' d"
      using remove_files_only_removed_children[OF run] by blast
  }
  {
    fix r
    assume r: "is_file fs r \<and> r \<notin> set rem"
    then show f: "is_file fs' r"
      unfolding fs' by (simp add: remove_files_is_file)
    fix d
    assume w: "wf_fs fs" and u: "under d r"
    from w have "wf_fs fs'" unfolding fs' by (rule remove_files_wf)
    moreover from f have "path_exists fs' r"
      by (auto simp: is_file_def path_exists_def split: option.splits)
    ultimately show "is_dir fs' d" using u by (rule wf_ancestors)
  }
qed

theorem pruning_bottom_up_witness:
  "remove_files prune_fs 0 prune_rem = (None, prune_after, 1) \<and>
   wf_fs prune_fs \<and> wf_fs prune_after \<and>
   \<not> path_exists prune_after deep_dir \<and>
   is_file prune_after keep_py \<and> is_dir prune_after (vendor_dir @ [''utility''])"
proof -
  have run: "remove_files prune_fs 0 prune_rem = (None, prune_after, 1)"
    by code_simp
  have wf: "wf_fs prune_fs"
    by code_simp
  have kids: "deep_dir \<noteq> vendor_dir \<and> iterdir prune_fs deep_dir = Inr [deep_dir @ [''b.py'']] \<and>
      [deep_dir @ [''b.py'']] \<noteq> [] \<and> set [deep_dir @ [''b.py'']] \<subseteq> set prune_rem"
    by code_simp
  have keep: "is_file prune_fs keep_py \<and> keep_py \<notin> set prune_rem \<and> under (vendor_dir @ [''utility'']) keep_py"
    by code_simp
  note T = pruning_bottom_up[of prune_fs "[]" 0 prune_rem prune_after 1]
  from T run wf have "wf_fs prune_after" by blast
  moreover from T run kids have "\<not> path_exists prune_after deep_dir" by blast
  moreover from T run wf keep have "is_file prune_after keep_py \<and> is_dir prune_after (vendor_dir @ [''utility''])"
    by blast
  ultimately show ?thesis using run wf by blast
qed

text \<open>
  C10. The walk over the parents never deletes the vendored root, and the vendored root
  is still a directory after the loop over the removable files, however the loop ends and
  whatever was removed below it.
\<close>

theorem vendor_root_kept:
  "(path_exists fs vendor_dir \<longrightarrow> path_exists (prune_parents fs par) vendor_dir) \<and>
   (is_dir fs vendor_dir \<longrightarrow> is_dir (fst (snd (remove_files fs n rem))) vendor_dir)"
  using prune_parents_deleted[of fs vendor_dir par] remove_files_vendor[of fs n rem]
  by blast

theorem vendor_root_kept_witness:
  "is_dir scenario_fs vendor_dir \<and>
   remove_files scenario_fs 0 (sort [entry_point, init_py, helper_py]) = (None, bare_fs, 3) \<and>
   is_dir bare_fs vendor_dir"
proof -
  have d: "is_dir scenario_fs vendor_dir"
    by code_simp
  have run: "remove_files scenario_fs 0 (sort [entry_point, init_py, helper_py]) = (None, bare_fs, 3)"
    by code_simp
  from vendor_root_kept[of scenario_fs "[]" 0 "sort [entry_point, init_py, helper_py]"] d run
  show ?thesis by simp
qed

section \<open>Runs of the main routine\<close>

lemma main_setup_errors:
  "\<not> path_exists fs vendor_dir \<or> \<not> path_exists fs entry_point \<Longrightarrow>
   \<exists>out. main ch fs = Some \<lparr>status = Returned 1, fs_after = fs, stdout = out\<rparr>"
  by (auto simp: main_def)

lemma cleanup_status: "status (cleanup fs out rem total_size) = Returned k \<Longrightarrow> k = 0"
  by (auto simp: cleanup_def split: prod.splits option.splits)

lemma main_returned:
  assumes "main ch fs = Some r" and "status r = Returned k"
  shows "(k = 1 \<and> fs_after r = fs \<and> (\<not> path_exists fs vendor_dir \<or> \<not> path_exists fs entry_point)) \<or>
         (k = 0 \<and> path_exists fs vendor_dir \<and> path_exists fs entry_point)"
  using assms
  by (auto simp: main_def Let_def split: if_splits option.splits prod.splits dest: cleanup_status)

lemma size_report_error_iff:
  "fst (size_report fs inventory rem) = None \<longleftrightarrow> size_sum fs inventory \<noteq> 0"
  by (simp add: size_report_def Let_def)

lemma remove_files_stops_at_error:
  "unlink fs p = Inl e \<Longrightarrow> remove_files fs n (p # rest) = (Some e, fs, n) \<or>
     remove_files fs n (p # rest) = (Some ValueError, fs, n)"
  by simp

lemma example_trees_wf: "wf_fs empty_entry_fs \<and> wf_fs stale_fs \<and> wf_fs qt_fs \<and> wf_fs cycle_fs"
  by code_simp

text \<open>
  C8: the size report divides by the total size of the inventory. In \<open>empty_entry_fs\<close>
  the entry point is an empty file and the only \<^verbatim>\<open>.py\<close> file, so the total is zero and the
  report raises \<^verbatim>\<open>ZeroDivisionError\<close>.
\<close>

theorem size_report_zero_total:
  "find_all_dependencies first_choice empty_entry_fs entry_point vendor_dir = Some ([entry_point], []) \<and>
   all_py_files empty_entry_fs = [entry_point] \<and>
   removable empty_entry_fs [entry_point] = [] \<and>
   size_report empty_entry_fs [entry_point] [] =
     (Some ZeroDivisionError, [Banner ''Size analysis:'', Size_total 0])"
  by code_simp

text \<open>
  C7: in \<open>empty_entry_fs\<close> the vendored root and the entry point exist and nothing is
  removable, and the run ends with the exception of the size report: the exit status
  is 1, not 0.
\<close>

theorem main_exit_status_zero_total:
  "path_exists empty_entry_fs vendor_dir \<and> path_exists empty_entry_fs entry_point \<and>
   map_option status (main first_choice empty_entry_fs) = Some (Raised ZeroDivisionError) \<and>
   map_option fs_after (main first_choice empty_entry_fs) = Some empty_entry_fs \<and>
   exit_status (Raised ZeroDivisionError) = 1"
  by code_simp

text \<open>
  C5: in \<open>stale_fs\<close> two files are removable. The first in sorted order lies in one of
  the listed unused directories, which \<^verbatim>\<open>rmtree\<close> has removed before the loop over the
  removable files starts; its \<^verbatim>\<open>unlink\<close> raises \<^verbatim>\<open>FileNotFoundError\<close>, which nothing
  catches. The run ends there: no message about the file is printed, and the second
  removable file is still in the tree.
\<close>

theorem unlink_failure_aborts:
  "find_all_dependencies first_choice stale_fs entry_point vendor_dir = Some ([entry_point], []) \<and>
   sort (removable stale_fs [entry_point]) = [stale_py, old_py] \<and>
   main first_choice stale_fs =
     Some \<lparr>status = Raised FileNotFoundError, fs_after = stale_after,
           stdout = [Banner ''Analyzing holopatcher dependencies...'', Banner ''Entry point'',
                     Found_required 1, Total_python 3, Removable_count 2,
                     Banner ''Size analysis:'', Size_total 1100, Size_removable 980 1100,
                     Size_after 120, Banner ''Removing obviously unused directories...'',
                     Removing_dir [''pykotor'', ''resource'', ''formats'', ''mdl''] 900,
                     Banner ''Removing unused Python files...'']\<rparr> \<and>
   is_file stale_after old_py"
  by code_simp

end
